theory Spec2Isabelle
  imports Main
begin

section \<open>Characters and strings\<close>

text \<open>
  The parser \<^verbatim>\<open>parseNaturalLanguage\<close> of \<^verbatim>\<open>src/App.js\<close> works on JavaScript strings.
  The model is a \<^typ>\<open>string\<close> of ASCII characters: \<^verbatim>\<open>toLowerCase\<close> and
  \<^verbatim>\<open>toUpperCase\<close> act on the 26 letters, the regular-expression class \<^verbatim>\<open>\d\<close> is
  \<^verbatim>\<open>0-9\<close>, \<^verbatim>\<open>\w\<close> is \<^verbatim>\<open>[A-Za-z0-9_]\<close> and \<^verbatim>\<open>\s\<close> is space, tab, line feed,
  vertical tab, form feed and carriage return. On ASCII characters this is what
  JavaScript does. Outside ASCII it is not: JavaScript also folds the case of other
  letters (a sharp s becomes SS, the Kelvin sign becomes k) and takes the no-break space
  and other Unicode spaces for white space, while the model leaves every other
  character alone and takes it for neither a digit, nor a word character, nor white
  space. The theorems about the title therefore take an input of ASCII characters.
\<close>

definition isAscii :: "char \<Rightarrow> bool" where
  "isAscii c = (of_char c < (128 :: nat))"

definition upperLetters :: string where
  "upperLetters = ''ABCDEFGHIJKLMNOPQRSTUVWXYZ''"

definition lowerLetters :: string where
  "lowerLetters = ''abcdefghijklmnopqrstuvwxyz''"

definition digits :: string where
  "digits = ''0123456789''"

definition isDigit :: "char \<Rightarrow> bool" where
  "isDigit c = (c \<in> set digits)"

definition isWord :: "char \<Rightarrow> bool" where
  "isWord c = (c \<in> set lowerLetters \<or> c \<in> set upperLetters \<or> c \<in> set digits \<or> c = CHR ''_'')"

definition isSpace :: "char \<Rightarrow> bool" where
  "isSpace c = (c \<in> {CHR '' '', CHR 0x09, CHR 0x0A, CHR 0x0B, CHR 0x0C, CHR 0x0D})"

definition lowerChar :: "char \<Rightarrow> char" where
  "lowerChar c = (case map_of (zip upperLetters lowerLetters) c of Some d \<Rightarrow> d | None \<Rightarrow> c)"

definition upperChar :: "char \<Rightarrow> char" where
  "upperChar c = (case map_of (zip lowerLetters upperLetters) c of Some d \<Rightarrow> d | None \<Rightarrow> c)"

definition toLowerCase :: "string \<Rightarrow> string" where
  "toLowerCase s = map lowerChar s"

text \<open>\<^verbatim>\<open>s.startsWith(k)\<close> and \<^verbatim>\<open>s.includes(k)\<close>: \<open>k\<close> occurs at the front of, or
  somewhere in, \<open>s\<close>.\<close>

fun startsWith :: "string \<Rightarrow> string \<Rightarrow> bool" where
  "startsWith s [] = True"
| "startsWith [] (k # ks) = False"
| "startsWith (c # cs) (k # ks) = (c = k \<and> startsWith cs ks)"

fun includesStr :: "string \<Rightarrow> string \<Rightarrow> bool" where
  "includesStr [] k = (k = [])"
| "includesStr (c # cs) k = (startsWith (c # cs) k \<or> includesStr cs k)"

text \<open>\<^verbatim>\<open>keywords.some(keyword => lowerText.includes(keyword))\<close>.\<close>

definition someIncluded :: "string list \<Rightarrow> string \<Rightarrow> bool" where
  "someIncluded keywords lowerText = list_ex (\<lambda>keyword. includesStr lowerText keyword) keywords"

text \<open>\<^verbatim>\<open>parseInt\<close> on a string of decimal digits.\<close>

definition digitVal :: "char \<Rightarrow> nat" where
  "digitVal c = (case map_of (zip digits [0, 1, 2, 3, 4, 5, 6, 7, 8, 9]) c of Some n \<Rightarrow> n | None \<Rightarrow> 0)"

definition parseInt :: "string \<Rightarrow> nat" where
  "parseInt ds = foldl (\<lambda>n c. 10 * n + digitVal c) 0 ds"

text \<open>\<^verbatim>\<open>n.toString().padStart(2, '0')\<close> for a natural number.\<close>

fun toDigits :: "nat \<Rightarrow> nat \<Rightarrow> string" where
  "toDigits 0 n = []"
| "toDigits (Suc fuel) n = (if n < 10 then [digits ! n] else toDigits fuel (n div 10) @ [digits ! (n mod 10)])"

definition toString :: "nat \<Rightarrow> string" where
  "toString n = toDigits (Suc n) n"

definition padStart2 :: "string \<Rightarrow> string" where
  "padStart2 s = replicate (2 - length s) (CHR ''0'') @ s"

section \<open>Category, priority and recurrence\<close>

definition categoryKeywords :: "(string \<times> string list) list" where
  "categoryKeywords =
    [(''Work'', [''meeting'', ''presentation'', ''report'', ''project'', ''client'', ''deadline'',
        ''email'', ''call'', ''conference'']),
     (''Personal'', [''birthday'', ''anniversary'', ''family'', ''friend'', ''party'', ''dinner'',
        ''lunch'', ''movie'']),
     (''Health'', [''doctor'', ''dentist'', ''gym'', ''workout'', ''exercise'', ''medicine'',
        ''appointment'', ''health'', ''hospital'']),
     (''Finance'', [''pay'', ''bill'', ''rent'', ''mortgage'', ''tax'', ''invoice'', ''budget'', ''bank'',
        ''payment'']),
     (''Shopping'', [''buy'', ''purchase'', ''shop'', ''store'', ''grocery'', ''groceries'', ''mall'',
        ''order'', ''get''])]"

text \<open>The loop over \<^verbatim>\<open>Object.entries(categoryKeywords)\<close> with its \<^verbatim>\<open>break\<close>.\<close>

fun categoryLoop :: "(string \<times> string list) list \<Rightarrow> string \<Rightarrow> string" where
  "categoryLoop [] lowerText = ''Other''"
| "categoryLoop ((cat, keywords) # rest) lowerText =
    (if someIncluded keywords lowerText then cat else categoryLoop rest lowerText)"

definition categoryOf :: "string \<Rightarrow> string" where
  "categoryOf lowerText = categoryLoop categoryKeywords lowerText"

definition highPriorityKeywords :: "string list" where
  "highPriorityKeywords =
    [''urgent'', ''asap'', ''important'', ''critical'', ''immediately'', ''priority'', ''must'']"

definition lowPriorityKeywords :: "string list" where
  "lowPriorityKeywords = [''maybe'', ''someday'', ''eventually'', ''when possible'', ''if time'']"

definition priorityOf :: "string \<Rightarrow> string" where
  "priorityOf lowerText =
    (if someIncluded highPriorityKeywords lowerText then ''High''
     else if someIncluded lowPriorityKeywords lowerText then ''Low''
     else ''Medium'')"

definition recurringOf :: "string \<Rightarrow> string" where
  "recurringOf lowerText =
    (if includesStr lowerText ''every day'' \<or> includesStr lowerText ''daily'' then ''daily''
     else if includesStr lowerText ''every week'' \<or> includesStr lowerText ''weekly'' then ''weekly''
     else if includesStr lowerText ''every month'' \<or> includesStr lowerText ''monthly'' then ''monthly''
     else ''none'')"

section \<open>Dates\<close>

text \<open>
  A JavaScript \<^verbatim>\<open>Date\<close> holds a time value or is invalid. The parser only handles
  midnights, so a date is modelled by its day number, the count of days since 1 January
  1970, with the local time zone taken to be UTC. A time value is valid up to
  8.64e15 milliseconds on either side of the epoch, that is 100,000,000 days;
  \<open>None\<close> is the invalid date. The calendar functions follow the ECMAScript
  definitions of \<^verbatim>\<open>DayFromYear\<close>, \<^verbatim>\<open>YearFromTime\<close>, \<^verbatim>\<open>MonthFromTime\<close>,
  \<^verbatim>\<open>DateFromTime\<close>, \<^verbatim>\<open>WeekDay\<close>, \<^verbatim>\<open>MakeDay\<close> and \<^verbatim>\<open>TimeClip\<close>.
\<close>

datatype error = RangeError

definition maxDay :: int where
  "maxDay = 100000000"

definition timeClip :: "int \<Rightarrow> int option" where
  "timeClip d = (if \<bar>d\<bar> \<le> maxDay then Some d else None)"

definition dayFromYear :: "int \<Rightarrow> int" where
  "dayFromYear y = 365 * (y - 1970) + (y - 1969) div 4 - (y - 1901) div 100 + (y - 1601) div 400"

text \<open>\<^verbatim>\<open>YearFromTime\<close> is the largest year whose first day is not after the given day.
  The mean year has 146097 / 400 days, which gives the year up to one step.\<close>

definition yearFromDay :: "int \<Rightarrow> int" where
  "yearFromDay d =
    (let y = 1970 + (400 * d) div 146097
     in if dayFromYear (y + 1) \<le> d then y + 1
        else if dayFromYear y \<le> d then y
        else y - 1)"

definition inLeapYear :: "int \<Rightarrow> bool" where
  "inLeapYear y = (y mod 4 = 0 \<and> (y mod 100 \<noteq> 0 \<or> y mod 400 = 0))"

text \<open>The number of days of the year before each month, January being month 0.\<close>

definition daysBeforeMonth :: "bool \<Rightarrow> int list" where
  "daysBeforeMonth leap =
    (if leap then [0, 31, 60, 91, 121, 152, 182, 213, 244, 274, 305, 335]
     else [0, 31, 59, 90, 120, 151, 181, 212, 243, 273, 304, 334])"

definition dayWithinYear :: "int \<Rightarrow> int" where
  "dayWithinYear d = d - dayFromYear (yearFromDay d)"

definition monthFromDay :: "int \<Rightarrow> nat" where
  "monthFromDay d =
    length (filter (\<lambda>b. b \<le> dayWithinYear d) (daysBeforeMonth (inLeapYear (yearFromDay d)))) - 1"

definition dateFromDay :: "int \<Rightarrow> int" where
  "dateFromDay d =
    dayWithinYear d - daysBeforeMonth (inLeapYear (yearFromDay d)) ! monthFromDay d + 1"

text \<open>\<^verbatim>\<open>getDay()\<close>: 0 is Sunday; 1 January 1970 was a Thursday.\<close>

definition getDay :: "int \<Rightarrow> int" where
  "getDay d = (d + 4) mod 7"

definition makeDay :: "int \<Rightarrow> int \<Rightarrow> int \<Rightarrow> int" where
  "makeDay year month date =
    (let ym = year + month div 12; mn = nat (month mod 12)
     in dayFromYear ym + daysBeforeMonth (inLeapYear ym) ! mn + date - 1)"

text \<open>\<^verbatim>\<open>new Date(year, month, day)\<close>: a year from 0 to 99 stands for 1900 + year.\<close>

definition newDate :: "int \<Rightarrow> int \<Rightarrow> int \<Rightarrow> int option" where
  "newDate year month day =
    (let yr = (if 0 \<le> year \<and> year \<le> 99 then 1900 + year else year)
     in timeClip (makeDay yr month day))"

text \<open>\<^verbatim>\<open>d.setDate(d.getDate() + n)\<close> moves a valid date by \<open>n\<close> days.\<close>

definition addDays :: "int \<Rightarrow> int \<Rightarrow> int option" where
  "addDays d n = timeClip (d + n)"

text \<open>\<^verbatim>\<open>d.setFullYear(d.getFullYear() + 1)\<close> keeps the month and the day of the month.\<close>

definition nextFullYear :: "int \<Rightarrow> int option" where
  "nextFullYear d = timeClip (makeDay (yearFromDay d + 1) (int (monthFromDay d)) (dateFromDay d))"

text \<open>\<^verbatim>\<open>toISOString()\<close> raises a \<^verbatim>\<open>RangeError\<close> on an invalid date. The string it
  returns names the instant, which the model keeps as the day number.\<close>

definition toISOString :: "int option \<Rightarrow> error + int" where
  "toISOString d = (case d of None \<Rightarrow> Inl RangeError | Some x \<Rightarrow> Inr x)"

section \<open>Date extraction\<close>

text \<open>Every assignment to \<^verbatim>\<open>dueDate\<close> goes through \<^verbatim>\<open>toISOString()\<close>, which may
  raise; the result of a rule is the error or the new value of \<^verbatim>\<open>dueDate\<close>.\<close>

definition isoDate :: "int option \<Rightarrow> error + int option" where
  "isoDate d = (case toISOString d of Inl e \<Rightarrow> Inl e | Inr x \<Rightarrow> Inr (Some x))"

definition days :: "string list" where
  "days = [''sunday'', ''monday'', ''tuesday'', ''wednesday'', ''thursday'', ''friday'', ''saturday'']"

text \<open>The \<^verbatim>\<open>for\<close> loop over the weekday names, from index \<open>i\<close> on, with its
  \<^verbatim>\<open>break\<close> at the first name found.\<close>

fun weekdayLoop :: "int \<Rightarrow> string \<Rightarrow> nat \<Rightarrow> string list \<Rightarrow> error + int option" where
  "weekdayLoop today lowerText i [] = Inr None"
| "weekdayLoop today lowerText i (name # rest) =
    (if includesStr lowerText name then
       (let targetDay = int i;
            currentDay = getDay today;
            daysToAdd = (targetDay - currentDay + 7) mod 7;
            daysToAdd = (if daysToAdd = 0 then 7 else daysToAdd)
        in isoDate (addDays today daysToAdd))
     else weekdayLoop today lowerText (Suc i) rest)"

text \<open>The \<^verbatim>\<open>if\<close>/\<^verbatim>\<open>else if\<close> chain of the relative phrases (tomorrow, today,
  next week, weekend, weekday names).\<close>

definition relativeDate :: "int \<Rightarrow> string \<Rightarrow> error + int option" where
  "relativeDate today lowerText =
    (if includesStr lowerText ''tomorrow'' then isoDate (addDays today 1)
     else if includesStr lowerText ''today'' then isoDate (Some today)
     else if includesStr lowerText ''next week'' then isoDate (addDays today 7)
     else if includesStr lowerText ''weekend'' \<or> includesStr lowerText ''saturday''
             \<or> includesStr lowerText ''sunday'' then
       (let daysUntilSaturday = (6 - getDay today + 7) mod 7;
            daysUntilSaturday = (if daysUntilSaturday = 0 then 7 else daysUntilSaturday)
        in isoDate (addDays today daysUntilSaturday))
     else weekdayLoop today lowerText 0 days)"

text \<open>\<^verbatim>\<open>s.match(re)\<close> without the \<^verbatim>\<open>g\<close> flag returns the leftmost match: the pattern
  is tried at every position from the left.\<close>

fun firstMatch :: "(string \<Rightarrow> 'a option) \<Rightarrow> string \<Rightarrow> 'a option" where
  "firstMatch f [] = f []"
| "firstMatch f (c # cs) = (case f (c # cs) of Some x \<Rightarrow> Some x | None \<Rightarrow> firstMatch f cs)"

text \<open>\<^verbatim>\<open>/in (\d+) days?/\<close> at the front of \<open>s\<close>, giving the captured digits. The greedy
  \<^verbatim>\<open>\d+\<close> takes the whole run of digits: with fewer, the next character would be a
  digit, not the space the pattern asks for.\<close>

definition inDaysAt :: "string \<Rightarrow> string option" where
  "inDaysAt s =
    (if startsWith s ''in '' then
       (let ds = takeWhile isDigit (drop 3 s);
            rest = dropWhile isDigit (drop 3 s)
        in if ds \<noteq> [] \<and> startsWith rest '' day'' then Some ds else None)
     else None)"

definition inDaysDate :: "int \<Rightarrow> string \<Rightarrow> int option \<Rightarrow> error + int option" where
  "inDaysDate today lowerText dueDate0 =
    (case firstMatch inDaysAt lowerText of
       Some g \<Rightarrow> isoDate (addDays today (int (parseInt g)))
     | None \<Rightarrow> Inr dueDate0)"

text \<open>\<^verbatim>\<open>\d{1,2}\<close> at the front of \<open>s\<close>. Each pattern below that starts with it goes on
  with a character that is not a digit, so only the longest run of at most two
  digits can lead to a match.\<close>

definition oneOrTwoDigits :: "string \<Rightarrow> string" where
  "oneOrTwoDigits s = takeWhile isDigit (take 2 s)"

text \<open>\<^verbatim>\<open>/(\d{1,2})[/-](\d{1,2})/\<close> at the front of \<open>s\<close>, giving both groups.\<close>

definition dateAt :: "string \<Rightarrow> (string \<times> string) option" where
  "dateAt s =
    (let m = oneOrTwoDigits s; r = drop (length m) s
     in if m \<noteq> [] \<and> r \<noteq> [] \<and> (hd r = CHR ''/'' \<or> hd r = CHR ''-'') then
          (let d = oneOrTwoDigits (tl r) in if d \<noteq> [] then Some (m, d) else None)
        else None)"

text \<open>The M/D rule on the two captured groups: the date in the current year, moved to
  the next year when it is before today. An invalid date compares false.\<close>

definition specificDate :: "int \<Rightarrow> string \<Rightarrow> string \<Rightarrow> error + int option" where
  "specificDate today m d =
    (let month = int (parseInt m) - 1;
         day = int (parseInt d)
     in case newDate (yearFromDay today) month day of
          None \<Rightarrow> isoDate None
        | Some sd \<Rightarrow> if sd < today then isoDate (nextFullYear sd) else isoDate (Some sd))"

definition specificDateRule :: "int \<Rightarrow> string \<Rightarrow> int option \<Rightarrow> error + int option" where
  "specificDateRule today text dueDate0 =
    (case firstMatch dateAt text of
       Some (m, d) \<Rightarrow> specificDate today m d
     | None \<Rightarrow> Inr dueDate0)"

definition dueDateOf :: "int \<Rightarrow> string \<Rightarrow> string \<Rightarrow> error + int option" where
  "dueDateOf today text lowerText =
    (case relativeDate today lowerText of
       Inl e \<Rightarrow> Inl e
     | Inr d1 \<Rightarrow>
        (case inDaysDate today lowerText d1 of
           Inl e \<Rightarrow> Inl e
         | Inr d2 \<Rightarrow> specificDateRule today text d2))"

section \<open>Time extraction\<close>

fun startsWithCI :: "string \<Rightarrow> string \<Rightarrow> bool" where
  "startsWithCI s [] = True"
| "startsWithCI [] (k # ks) = False"
| "startsWithCI (c # cs) (k # ks) = (lowerChar c = k \<and> startsWithCI cs ks)"

text \<open>\<^verbatim>\<open>(am|pm)\<close> under the \<^verbatim>\<open>i\<close> flag at the front of \<open>s\<close>.\<close>

definition meridiemAt :: "string \<Rightarrow> string option" where
  "meridiemAt s =
    (if startsWithCI s ''am'' then Some ''am''
     else if startsWithCI s ''pm'' then Some ''pm''
     else None)"

definition twoDigitsAt :: "string \<Rightarrow> bool" where
  "twoDigitsAt s = (length s \<ge> 2 \<and> isDigit (s ! 0) \<and> isDigit (s ! 1))"

text \<open>\<^verbatim>\<open>/(\d{1,2})(?::(\d{2}))?\s*(am|pm)/i\<close> at the front of \<open>s\<close>, giving the hour
  digits, the minute digits if the optional group took part, and the meridiem in
  lower case. When the optional group matches and no meridiem follows, leaving the
  group out does not help: the colon is neither white space nor a meridiem.\<close>

definition time12At :: "string \<Rightarrow> (string \<times> string option \<times> string) option" where
  "time12At s =
    (let h = oneOrTwoDigits s; r = drop (length h) s
     in if h = [] then None
        else if startsWith r '':'' \<and> twoDigitsAt (tl r) then
          (case meridiemAt (dropWhile isSpace (drop 3 r)) of
             Some meridiem \<Rightarrow> Some (h, Some (take 2 (tl r)), meridiem)
           | None \<Rightarrow> None)
        else
          (case meridiemAt (dropWhile isSpace r) of
             Some meridiem \<Rightarrow> Some (h, None, meridiem)
           | None \<Rightarrow> None))"

text \<open>\<^verbatim>\<open>/(\d{1,2}):(\d{2})/\<close> at the front of \<open>s\<close>.\<close>

definition time24At :: "string \<Rightarrow> (string \<times> string) option" where
  "time24At s =
    (let h = oneOrTwoDigits s; r = drop (length h) s
     in if h \<noteq> [] \<and> startsWith r '':'' \<and> twoDigitsAt (tl r) then Some (h, take 2 (tl r))
        else None)"

definition formatTime :: "nat \<Rightarrow> nat \<Rightarrow> string" where
  "formatTime hours minutes = padStart2 (toString hours) @ '':'' @ padStart2 (toString minutes)"

text \<open>The hour and minute that the 12-hour branch computes from its match.\<close>

definition time12Value :: "string \<times> string option \<times> string \<Rightarrow> nat \<times> nat" where
  "time12Value match =
    (case match of (h, mm, meridiem) \<Rightarrow>
      (let hours = parseInt h;
           minutes = (case mm of Some ds \<Rightarrow> parseInt ds | None \<Rightarrow> 0);
           hours = (if meridiem = ''pm'' \<and> hours \<noteq> 12 then hours + 12 else hours);
           hours = (if meridiem = ''am'' \<and> hours = 12 then 0 else hours)
       in (hours, minutes)))"

text \<open>The value of \<^verbatim>\<open>dueTime\<close> after the two numeric patterns.\<close>

definition numericTime :: "string \<Rightarrow> string option" where
  "numericTime text =
    (case firstMatch time12At text of
       Some match \<Rightarrow> (case time12Value match of (hours, minutes) \<Rightarrow> Some (formatTime hours minutes))
     | None \<Rightarrow>
        (case firstMatch time24At text of
           Some (h, mm) \<Rightarrow>
             (let hours = parseInt h; minutes = parseInt mm
              in if hours < 24 \<and> minutes < 60 then Some (formatTime hours minutes) else None)
         | None \<Rightarrow> None))"

text \<open>The word-based times: an \<^verbatim>\<open>if\<close>/\<^verbatim>\<open>else if\<close> chain after the numeric patterns,
  without a final \<^verbatim>\<open>else\<close>.\<close>

definition dueTimeOf :: "string \<Rightarrow> string \<Rightarrow> string option" where
  "dueTimeOf text lowerText =
    (let dueTime0 = numericTime text
     in if includesStr lowerText ''noon'' then Some ''12:00''
        else if includesStr lowerText ''midnight'' then Some ''00:00''
        else if includesStr lowerText ''morning'' then Some ''09:00''
        else if includesStr lowerText ''afternoon'' then Some ''14:00''
        else if includesStr lowerText ''evening'' then Some ''18:00''
        else if includesStr lowerText ''night'' then Some ''20:00''
        else dueTime0)"

section \<open>Title cleaning\<close>

text \<open>
  \<^verbatim>\<open>s.replace(re, rep)\<close> with the \<^verbatim>\<open>g\<close> flag replaces every match, scanning from
  the left and resuming after each match. A pattern is modelled by a function that is
  given whether the character before the current position is a word character (what
  \<^verbatim>\<open>\b\<close> needs to know) and the rest of the string, and returns the length of the
  match at this position. Every pattern of the parser matches at least one
  character, so a match of length \<open>n\<close> on \<open>c # cs\<close> leaves \<open>drop (n - 1) cs\<close>.
\<close>

type_synonym pattern = "bool \<Rightarrow> string \<Rightarrow> nat option"

fun replaceAll :: "pattern \<Rightarrow> string \<Rightarrow> bool \<Rightarrow> string \<Rightarrow> string" where
  "replaceAll p rep prevWord [] = []"
| "replaceAll p rep prevWord (c # cs) =
    (case p prevWord (c # cs) of
       None \<Rightarrow> c # replaceAll p rep (isWord c) cs
     | Some n \<Rightarrow> rep @ replaceAll p rep (isWord (last (take n (c # cs)))) (drop (n - 1) cs))"

text \<open>\<^verbatim>\<open>\b\<close>: exactly one of the characters on the two sides of the position is a
  word character; the ends of the string count as non-word.\<close>

definition boundary :: "bool \<Rightarrow> string \<Rightarrow> bool" where
  "boundary prevWord s = (prevWord \<noteq> (s \<noteq> [] \<and> isWord (hd s)))"

definition boundaryAfter :: "string \<Rightarrow> nat \<Rightarrow> bool" where
  "boundaryAfter s n = boundary (n > 0 \<and> isWord (last (take n s))) (drop n s)"

text \<open>An alternative of a group gives the lengths it can match at the front of the
  string, in the order in which backtracking tries them.\<close>

definition literal :: "string \<Rightarrow> string \<Rightarrow> nat list" where
  "literal k s = (if startsWithCI s k then [length k] else [])"

text \<open>\<^verbatim>\<open>in \d+ days?\<close>: the optional \<^verbatim>\<open>s\<close> is tried first.\<close>

definition inDaysAlt :: "string \<Rightarrow> nat list" where
  "inDaysAlt s =
    (if startsWithCI s ''in '' then
       (let ds = takeWhile isDigit (drop 3 s);
            n = 3 + length ds + 4
        in if ds \<noteq> [] \<and> startsWithCI (drop (3 + length ds) s) '' day'' then
             (if startsWithCI (drop n s) ''s'' then [n + 1] else []) @ [n]
           else [])
     else [])"

text \<open>\<^verbatim>\<open>\b(alt1|alt2|...)\b\<close>: the first length, over the alternatives in order, after
  which there is a word boundary.\<close>

definition boundedGroup :: "(string \<Rightarrow> nat list) list \<Rightarrow> pattern" where
  "boundedGroup alts prevWord s =
    (if boundary prevWord s then find (boundaryAfter s) (concat (map (\<lambda>alt. alt s) alts))
     else None)"

definition priorityPattern :: pattern where
  "priorityPattern =
    boundedGroup (map literal
      [''urgent'', ''asap'', ''important'', ''critical'', ''immediately'', ''priority''])"

definition datePattern :: pattern where
  "datePattern =
    boundedGroup (map literal [''tomorrow'', ''today'', ''next week'', ''this weekend''] @ [inDaysAlt])"

definition recurringPattern :: pattern where
  "recurringPattern =
    boundedGroup (map literal
      [''every day'', ''daily'', ''every week'', ''weekly'', ''every month'', ''monthly''])"

text \<open>\<^verbatim>\<open>/\d{1,2}:\d{2}\s*(am|pm)?/gi\<close>: the white space and the meridiem are greedy and
  nothing follows them, so they are taken whenever they are there.\<close>

definition clockPattern :: pattern where
  "clockPattern prevWord s =
    (let h = oneOrTwoDigits s; r = drop (length h) s
     in if h \<noteq> [] \<and> startsWith r '':'' \<and> twoDigitsAt (tl r) then
          (let ws = takeWhile isSpace (drop 3 r);
               rest = dropWhile isSpace (drop 3 r)
           in Some (length h + 3 + length ws + (if meridiemAt rest = None then 0 else 2)))
        else None)"

text \<open>\<^verbatim>\<open>/\d{1,2}\s*(am|pm)/gi\<close>.\<close>

definition hourPattern :: pattern where
  "hourPattern prevWord s =
    (let h = oneOrTwoDigits s; r = drop (length h) s
     in if h \<noteq> [] \<and> meridiemAt (dropWhile isSpace r) \<noteq> None then
          Some (length h + length (takeWhile isSpace r) + 2)
        else None)"

text \<open>\<^verbatim>\<open>/\bat\s+/gi\<close> and \<^verbatim>\<open>/\bon\s+/gi\<close>.\<close>

definition prepositionPattern :: "string \<Rightarrow> pattern" where
  "prepositionPattern k prevWord s =
    (let ws = takeWhile isSpace (drop (length k) s)
     in if boundary prevWord s \<and> startsWithCI s k \<and> ws \<noteq> [] then Some (length k + length ws)
        else None)"

text \<open>\<^verbatim>\<open>/\s+/g\<close>.\<close>

definition spacesPattern :: pattern where
  "spacesPattern prevWord s =
    (let ws = takeWhile isSpace s in if ws \<noteq> [] then Some (length ws) else None)"

definition trim :: "string \<Rightarrow> string" where
  "trim s = rev (dropWhile isSpace (rev (dropWhile isSpace s)))"

text \<open>\<^verbatim>\<open>title.charAt(0).toUpperCase() + title.slice(1)\<close>.\<close>

definition capitalize :: "string \<Rightarrow> string" where
  "capitalize s = (case s of [] \<Rightarrow> [] | c # cs \<Rightarrow> upperChar c # cs)"

text \<open>The text after the seven removals, before white space is collapsed.\<close>

definition removals :: "string \<Rightarrow> string" where
  "removals text =
    replaceAll recurringPattern [] False
      (replaceAll (prepositionPattern ''on'') [] False
        (replaceAll (prepositionPattern ''at'') [] False
          (replaceAll hourPattern [] False
            (replaceAll clockPattern [] False
              (replaceAll datePattern [] False
                (replaceAll priorityPattern [] False text))))))"

definition cleaned :: "string \<Rightarrow> string" where
  "cleaned text = trim (replaceAll spacesPattern '' '' False (removals text))"

definition titleOf :: "string \<Rightarrow> string" where
  "titleOf text = capitalize (cleaned text)"

section \<open>The parser\<close>

record parseResult =
  title :: string
  category :: string
  priority :: string
  dueDate :: "int option"
  dueTime :: "string option"
  recurring :: string

text \<open>\<^verbatim>\<open>parseNaturalLanguage(text)\<close>, with the day that \<^verbatim>\<open>new Date()\<close> falls on as a
  parameter. The only statements that can raise are the \<^verbatim>\<open>toISOString()\<close> calls of
  the date stage.\<close>

definition parseNaturalLanguage :: "int \<Rightarrow> string \<Rightarrow> error + parseResult" where
  "parseNaturalLanguage today text =
    (let lowerText = toLowerCase text
     in case dueDateOf today text lowerText of
          Inl e \<Rightarrow> Inl e
        | Inr d \<Rightarrow>
            Inr \<lparr>title = titleOf text,
                 category = categoryOf lowerText,
                 priority = priorityOf lowerText,
                 dueDate = d,
                 dueTime = dueTimeOf text lowerText,
                 recurring = recurringOf lowerText\<rparr>)"

section \<open>The rules as tables\<close>

text \<open>The reference day comes from the system clock. The theorems below take it to lie
  between 1 January 1970 and 31 December 9999.\<close>

definition clockOk :: "int \<Rightarrow> bool" where
  "clockOk today = (dayFromYear 1970 \<le> today \<and> today < dayFromYear 10000)"

text \<open>The offset to the next day whose weekday is \<open>target\<close>, a full week when today is
  that weekday: the formula that the specification gives for the weekend rule and the
  weekday-name rule.\<close>

definition nextWeekday :: "int \<Rightarrow> int \<Rightarrow> int" where
  "nextWeekday today target =
    (let offset = (target - getDay today + 7) mod 7 in if offset = 0 then 7 else offset)"

text \<open>The relative-phrase rules in their declared order, each with the phrases that
  trigger it and the number of days it adds to today.\<close>

definition relativeRules :: "int \<Rightarrow> (string list \<times> int) list" where
  "relativeRules today =
    [([''tomorrow''], 1),
     ([''today''], 0),
     ([''next week''], 7),
     ([''weekend'', ''saturday'', ''sunday''], nextWeekday today 6),
     ([''sunday''], nextWeekday today 0),
     ([''monday''], nextWeekday today 1),
     ([''tuesday''], nextWeekday today 2),
     ([''wednesday''], nextWeekday today 3),
     ([''thursday''], nextWeekday today 4),
     ([''friday''], nextWeekday today 5),
     ([''saturday''], nextWeekday today 6)]"

definition firstMatchingRule :: "int \<Rightarrow> string \<Rightarrow> int option" where
  "firstMatchingRule today lowerText =
    map_option snd (find (\<lambda>(phrases, offset). someIncluded phrases lowerText) (relativeRules today))"

text \<open>The word-based time keywords in their declared order.\<close>

definition wordTimes :: "(string \<times> string) list" where
  "wordTimes =
    [(''noon'', ''12:00''), (''midnight'', ''00:00''), (''morning'', ''09:00''),
     (''afternoon'', ''14:00''), (''evening'', ''18:00''), (''night'', ''20:00'')]"

text \<open>The words of a string: its maximal runs of word characters, from left to right.
  \<open>cur\<close> is the word read so far. A pattern \<^verbatim>\<open>\bk\b\<close> for a keyword \<open>k\<close> made of
  word characters matches exactly where one of these words is \<open>k\<close>.\<close>

fun wordsAcc :: "string \<Rightarrow> string \<Rightarrow> string list" where
  "wordsAcc cur [] = (if cur = [] then [] else [cur])"
| "wordsAcc cur (c # cs) =
    (if isWord c then wordsAcc (cur @ [c]) cs
     else (if cur = [] then [] else [cur]) @ wordsAcc [] cs)"

definition wordsOf :: "string \<Rightarrow> string list" where
  "wordsOf s = wordsAcc [] s"

text \<open>The recurrence keywords that are single words.\<close>

definition recurrenceWords :: "string list" where
  "recurrenceWords = [''daily'', ''weekly'', ''monthly'']"

section \<open>Auxiliary facts\<close>

subsection \<open>Substrings\<close>

lemma startsWith_iff: "startsWith s k \<longleftrightarrow> (\<exists>r. s = k @ r)"
  by (induction s k rule: startsWith.induct) auto

lemma includesStr_iff: "includesStr s k \<longleftrightarrow> (\<exists>a b. s = a @ k @ b)"
proof (induction s)
  case Nil
  then show ?case by auto
next
  case (Cons c cs)
  show ?case
  proof
    assume "includesStr (c # cs) k"
    then consider "startsWith (c # cs) k" | "includesStr cs k"
      by auto
    then show "\<exists>a b. c # cs = a @ k @ b"
    proof cases
      case 1
      then obtain r where "c # cs = k @ r"
        using startsWith_iff by blast
      then have "c # cs = [] @ k @ r"
        by simp
      then show ?thesis by blast
    next
      case 2
      then obtain a b where "cs = a @ k @ b"
        using Cons.IH by blast
      then have "c # cs = (c # a) @ k @ b"
        by simp
      then show ?thesis by blast
    qed
  next
    assume "\<exists>a b. c # cs = a @ k @ b"
    then obtain a b where ab: "c # cs = a @ k @ b"
      by blast
    show "includesStr (c # cs) k"
    proof (cases a)
      case Nil
      then have "startsWith (c # cs) k"
        using ab startsWith_iff [of "c # cs" k] by auto
      then show ?thesis by simp
    next
      case (Cons x a')
      then have "cs = a' @ k @ b"
        using ab by simp
      then have "includesStr cs k"
        using Cons.IH by blast
      then show ?thesis by simp
    qed
  qed
qed

subsection \<open>Relative dates\<close>

lemma clockOk_range: "clockOk today \<longleftrightarrow> 0 \<le> today \<and> today \<le> 2932896"
  by (auto simp add: clockOk_def dayFromYear_def)

lemma nextWeekday_bounds: "1 \<le> nextWeekday today target \<and> nextWeekday today target \<le> 7"
proof -
  have "0 \<le> (target - getDay today + 7) mod 7" "(target - getDay today + 7) mod 7 < 7"
    by simp_all
  then show ?thesis
    unfolding nextWeekday_def Let_def by (auto simp del: mod_add_self2)
qed

lemma nextWeekday_mod: "nextWeekday today target mod 7 = (target - getDay today) mod 7"
  unfolding nextWeekday_def Let_def by simp

lemma getDay_nextWeekday:
  assumes "0 \<le> target" "target < 7"
  shows "getDay (today + nextWeekday today target) = target"
proof -
  have "getDay (today + nextWeekday today target) = ((today + 4) + nextWeekday today target) mod 7"
    by (simp add: getDay_def algebra_simps)
  also have "\<dots> = ((today + 4) mod 7 + nextWeekday today target mod 7) mod 7"
    by (rule mod_add_eq [symmetric])
  also have "\<dots> = (getDay today + (target - getDay today) mod 7) mod 7"
    by (simp only: nextWeekday_mod getDay_def)
  also have "\<dots> = (getDay today + (target - getDay today)) mod 7"
    by (rule mod_add_right_eq)
  also have "\<dots> = target" using assms by simp
  finally show ?thesis .
qed

lemma isoDate_addDays:
  "clockOk today \<Longrightarrow> 0 \<le> n \<Longrightarrow> today + n \<le> maxDay \<Longrightarrow> isoDate (addDays today n) = Inr (Some (today + n))"
  by (simp add: clockOk_range isoDate_def addDays_def timeClip_def toISOString_def maxDay_def)

lemma isoDate_today: "isoDate (Some today) = Inr (Some today)"
  by (simp add: isoDate_def toISOString_def)

lemma isoDate_nextWeekday:
  "clockOk today \<Longrightarrow>
    isoDate (addDays today (nextWeekday today t)) = Inr (Some (today + nextWeekday today t))"
  using nextWeekday_bounds [of today t]
  by (intro isoDate_addDays) (auto simp add: clockOk_range maxDay_def)

lemma weekdayLoop_Cons:
  "weekdayLoop today lowerText i (name # rest) =
    (if includesStr lowerText name then isoDate (addDays today (nextWeekday today (int i)))
     else weekdayLoop today lowerText (Suc i) rest)"
  by (simp add: nextWeekday_def Let_def del: mod_add_self2)

declare weekdayLoop.simps(2) [simp del]

lemma weekdayLoop_first:
  "i < length names \<Longrightarrow> includesStr lowerText (names ! i) \<Longrightarrow>
   \<forall>j<i. \<not> includesStr lowerText (names ! j) \<Longrightarrow>
   weekdayLoop today lowerText k names = isoDate (addDays today (nextWeekday today (int (k + i))))"
proof (induction names arbitrary: i k)
  case Nil
  then show ?case by simp
next
  case (Cons name rest)
  show ?case
  proof (cases i)
    case 0
    with Cons.prems show ?thesis by (simp add: weekdayLoop_Cons)
  next
    case (Suc i')
    from Cons.prems Suc have a: "i' < length rest" "includesStr lowerText (rest ! i')"
      by simp_all
    from Cons.prems(3) Suc have b: "\<forall>j<i'. \<not> includesStr lowerText (rest ! j)"
      by (metis Suc_less_eq nth_Cons_Suc)
    from Cons.prems(3) Suc have c: "\<not> includesStr lowerText name"
      by (metis nth_Cons_0 zero_less_Suc)
    show ?thesis
      using Cons.IH [OF a b, of "Suc k"] c Suc by (simp add: weekdayLoop_Cons)
  qed
qed

lemma saturday_step:
  "(let daysUntilSaturday = (6 - getDay today + 7) mod 7;
        daysUntilSaturday = (if daysUntilSaturday = 0 then 7 else daysUntilSaturday)
    in isoDate (addDays today daysUntilSaturday)) = isoDate (addDays today (nextWeekday today 6))"
  by (simp add: nextWeekday_def Let_def del: mod_add_self2)

lemma relativeDate_first:
  assumes "clockOk today"
  shows "relativeDate today lowerText =
          Inr (map_option (\<lambda>offset. today + offset) (firstMatchingRule today lowerText))"
proof -
  have a1: "isoDate (addDays today 1) = Inr (Some (today + 1))"
    and a7: "isoDate (addDays today 7) = Inr (Some (today + 7))"
    using assms by (simp_all add: clockOk_range isoDate_def addDays_def timeClip_def toISOString_def maxDay_def)
  show ?thesis
    unfolding relativeDate_def saturday_step firstMatchingRule_def relativeRules_def days_def
    by (simp add: a1 a7 isoDate_today isoDate_nextWeekday [OF assms] weekdayLoop_Cons someIncluded_def)
qed

lemma parse_dueDate:
  "map_sum id dueDate (parseNaturalLanguage today text) = dueDateOf today text (toLowerCase text)"
  by (simp add: parseNaturalLanguage_def Let_def split: sum.split)

lemma parse_dueTime:
  "parseNaturalLanguage today text = Inr r \<Longrightarrow> dueTime r = dueTimeOf text (toLowerCase text)"
  by (auto simp add: parseNaturalLanguage_def Let_def split: sum.splits)

lemma dueTimeOf_find:
  "dueTimeOf text lowerText =
    (case find (\<lambda>(word, time). includesStr lowerText word) wordTimes of
       Some (word, time) \<Rightarrow> Some time
     | None \<Rightarrow> numericTime text)"
  by (simp add: dueTimeOf_def wordTimes_def Let_def)

subsection \<open>The calendar\<close>

lemma div_bounds:
  fixes x k :: int
  assumes "0 < k"
  shows "k * (x div k) \<le> x" and "x < k * (x div k) + k"
proof -
  have "k * (x div k) + x mod k = x"
    by simp
  moreover have "0 \<le> x mod k" "x mod k < k"
    using assms by simp_all
  ultimately show "k * (x div k) \<le> x" and "x < k * (x div k) + k" by linarith+
qed

lemma dayFromYear_bounds:
  "146097 * y < 400 * dayFromYear y + 287811697"
  "400 * dayFromYear y + 287810497 < 146097 * y"
proof -
  define a b c where "a = (y - 1969) div 4" and "b = (y - 1901) div 100" and "c = (y - 1601) div 400"
  have a: "4 * a \<le> y - 1969" "y - 1969 < 4 * a + 4"
    unfolding a_def by (rule div_bounds, simp)+
  have b: "100 * b \<le> y - 1901" "y - 1901 < 100 * b + 100"
    unfolding b_def by (rule div_bounds, simp)+
  have c: "400 * c \<le> y - 1601" "y - 1601 < 400 * c + 400"
    unfolding c_def by (rule div_bounds, simp)+
  have d: "400 * dayFromYear y = 146000 * y - 287620000 + 400 * a - 400 * b + 400 * c"
    by (simp add: dayFromYear_def a_def b_def c_def)
  show "146097 * y < 400 * dayFromYear y + 287811697"
    unfolding d using a b c by linarith
  show "400 * dayFromYear y + 287810497 < 146097 * y"
    unfolding d using a b c by linarith
qed

lemma dayFromYear_mono: "y < y' \<Longrightarrow> dayFromYear y < dayFromYear y'"
  using dayFromYear_bounds [of y] dayFromYear_bounds [of y'] by linarith

lemma dayFromYear_mono_le: "y \<le> y' \<Longrightarrow> dayFromYear y \<le> dayFromYear y'"
  using dayFromYear_mono [of y y'] by (cases "y = y'") auto

lemma yearFromDay_spec:
  "dayFromYear (yearFromDay d) \<le> d" "d < dayFromYear (yearFromDay d + 1)"
proof -
  define q where "q = (400 * d) div 146097"
  define y where "y = 1970 + q"
  define ym where "ym = y - 1"
  define yp where "yp = y + 2"
  have q: "146097 * q \<le> 400 * d" "400 * d < 146097 * q + 146097"
    unfolding q_def by (rule div_bounds, simp)+
  have lo: "dayFromYear ym \<le> d"
    using dayFromYear_bounds [of ym] q y_def ym_def by linarith
  have hi: "d < dayFromYear yp"
    using dayFromYear_bounds [of yp] q y_def yp_def by linarith
  have e: "yearFromDay d = (if dayFromYear (y + 1) \<le> d then y + 1
        else if dayFromYear y \<le> d then y else y - 1)"
    by (simp add: yearFromDay_def y_def q_def Let_def)
  have p: "y + 1 + 1 = yp" "y - 1 + 1 = y"
    by (simp_all add: yp_def)
  show "dayFromYear (yearFromDay d) \<le> d"
    using lo by (simp add: e ym_def)
  show "d < dayFromYear (yearFromDay d + 1)"
    using hi by (simp add: e p)
qed

lemma yearFromDay_unique:
  assumes "dayFromYear y \<le> d" and "d < dayFromYear (y + 1)"
  shows "yearFromDay d = y"
proof (rule ccontr)
  assume n: "yearFromDay d \<noteq> y"
  note s = yearFromDay_spec [of d]
  show False
  proof (cases "yearFromDay d < y")
    case True
    then have "dayFromYear (yearFromDay d + 1) \<le> dayFromYear y"
      by (intro dayFromYear_mono_le) simp
    with s assms show False by linarith
  next
    case False
    with n have "dayFromYear (y + 1) \<le> dayFromYear (yearFromDay d)"
      by (intro dayFromYear_mono_le) simp
    with s assms show False by linarith
  qed
qed

lemma yearFromDay_clock:
  assumes "clockOk today"
  shows "1970 \<le> yearFromDay today" "yearFromDay today \<le> 9999"
proof -
  note s = yearFromDay_spec [of today]
  have a: "dayFromYear 1970 \<le> today" "today < dayFromYear 10000"
    using assms by (simp_all add: clockOk_def)
  have "\<not> yearFromDay today < 1970"
  proof
    assume "yearFromDay today < 1970"
    then have "dayFromYear (yearFromDay today + 1) \<le> dayFromYear 1970"
      by (intro dayFromYear_mono_le) simp
    with s a show False by linarith
  qed
  then show "1970 \<le> yearFromDay today" by simp
  have "\<not> 10000 \<le> yearFromDay today"
  proof
    assume "10000 \<le> yearFromDay today"
    then have "dayFromYear 10000 \<le> dayFromYear (yearFromDay today)"
      by (intro dayFromYear_mono_le) simp
    with s a show False by linarith
  qed
  then show "yearFromDay today \<le> 9999" by simp
qed

lemma digitVal_le: "digitVal c \<le> 9"
  by (simp add: digitVal_def digits_def)

lemma parseInt_two: "length s \<le> 2 \<Longrightarrow> parseInt s \<le> 99"
proof -
  assume "length s \<le> 2"
  then consider "s = []" | a where "s = [a]" | a b where "s = [a, b]"
    by (cases s; cases "tl s"; cases "tl (tl s)") auto
  then show ?thesis
  proof cases
    case 1
    then show ?thesis by (simp add: parseInt_def)
  next
    case 2
    then show ?thesis using digitVal_le [of a] by (simp add: parseInt_def)
  next
    case 3
    then show ?thesis using digitVal_le [of a] digitVal_le [of b] by (simp add: parseInt_def)
  qed
qed

lemma oneOrTwoDigits_length: "length (oneOrTwoDigits s) \<le> 2"
  unfolding oneOrTwoDigits_def
  using length_takeWhile_le [of isDigit "take 2 s"] by simp

lemma firstMatch_Some: "firstMatch f s = Some x \<Longrightarrow> \<exists>s'. f s' = Some x"
  by (induction s) (auto split: option.splits)

lemma dateAt_groups: "dateAt s = Some (m, d) \<Longrightarrow> length m \<le> 2 \<and> length d \<le> 2"
  using oneOrTwoDigits_length
  by (auto simp add: dateAt_def Let_def split: if_splits)

lemma daysBeforeMonth_range:
  "mn < 12 \<Longrightarrow> 0 \<le> daysBeforeMonth leap ! mn \<and> daysBeforeMonth leap ! mn \<le> 335"
proof -
  assume mn: "mn < 12"
  have "\<forall>x\<in>set (daysBeforeMonth leap). 0 \<le> x \<and> x \<le> 335"
    by (simp add: daysBeforeMonth_def)
  moreover have "length (daysBeforeMonth leap) = 12"
    by (simp add: daysBeforeMonth_def)
  ultimately show ?thesis using mn nth_mem [of mn "daysBeforeMonth leap"] by auto
qed

lemma makeDay_range:
  assumes "ylo \<le> y" "y \<le> 10000" "- 12 \<le> mo" "mo \<le> 107" "- 400 \<le> dt" "dt \<le> 400"
  shows "dayFromYear (ylo - 1) - 401 \<le> makeDay y mo dt" "makeDay y mo dt \<le> 2940000"
proof -
  define q where "q = mo div 12"
  define ym where "ym = y + q"
  define mn where "mn = nat (mo mod 12)"
  have q: "12 * q \<le> mo" "mo < 12 * q + 12"
    unfolding q_def by (rule div_bounds, simp)+
  have ym: "ylo - 1 \<le> ym" "ym \<le> 10008"
    using q assms by (simp_all add: ym_def)
  have lo: "dayFromYear (ylo - 1) \<le> dayFromYear ym"
    using ym(1) by (rule dayFromYear_mono_le)
  have "mn < 12"
    unfolding mn_def using pos_mod_bound [of 12 mo] by linarith
  then have t: "0 \<le> daysBeforeMonth (inLeapYear ym) ! mn" "daysBeforeMonth (inLeapYear ym) ! mn \<le> 335"
    using daysBeforeMonth_range by simp_all
  have e: "makeDay y mo dt = dayFromYear ym + daysBeforeMonth (inLeapYear ym) ! mn + dt - 1"
    by (simp add: makeDay_def Let_def ym_def q_def mn_def)
  show "dayFromYear (ylo - 1) - 401 \<le> makeDay y mo dt"
    unfolding e using lo t assms by linarith
  show "makeDay y mo dt \<le> 2940000"
    unfolding e using dayFromYear_bounds [of ym] ym t assms by linarith
qed

lemma timeClip_range: "- 1500 \<le> x \<Longrightarrow> x \<le> 2940000 \<Longrightarrow> timeClip x = Some x"
  by (simp add: timeClip_def maxDay_def)

lemma monthFromDay_less: "monthFromDay x < 12"
proof -
  have "length (filter (\<lambda>b. b \<le> dayWithinYear x) (daysBeforeMonth (inLeapYear (yearFromDay x))))
          \<le> length (daysBeforeMonth (inLeapYear (yearFromDay x)))"
    by (rule length_filter_le)
  also have "\<dots> = 12"
    by (simp add: daysBeforeMonth_def)
  finally show ?thesis
    by (simp add: monthFromDay_def)
qed

lemma dayWithinYear_range: "0 \<le> dayWithinYear x" "dayWithinYear x \<le> 368"
proof -
  define y where "y = yearFromDay x"
  define y1 where "y1 = y + 1"
  have s: "dayFromYear y \<le> x" "x < dayFromYear y1"
    unfolding y_def y1_def by (rule yearFromDay_spec)+
  show "0 \<le> dayWithinYear x"
    using s by (simp add: dayWithinYear_def y_def)
  have "dayFromYear y1 \<le> dayFromYear y + 369"
    using dayFromYear_bounds [of y] dayFromYear_bounds [of y1] y1_def by linarith
  then show "dayWithinYear x \<le> 368"
    using s by (simp add: dayWithinYear_def y_def)
qed

lemma dateFromDay_range: "- 400 \<le> dateFromDay x" "dateFromDay x \<le> 400"
  using dayWithinYear_range [of x]
    daysBeforeMonth_range [OF monthFromDay_less [of x], of "inLeapYear (yearFromDay x)"]
  by (simp_all add: dateFromDay_def)

lemma yearFromDay_range:
  assumes "dayFromYear ylo \<le> x" "x < dayFromYear yhi"
  shows "ylo \<le> yearFromDay x" "yearFromDay x < yhi"
proof -
  note s = yearFromDay_spec [of x]
  have "\<not> yearFromDay x < ylo"
  proof
    assume "yearFromDay x < ylo"
    then have "dayFromYear (yearFromDay x + 1) \<le> dayFromYear ylo"
      by (intro dayFromYear_mono_le) simp
    with s assms show False by linarith
  qed
  then show "ylo \<le> yearFromDay x" by simp
  have "\<not> yhi \<le> yearFromDay x"
  proof
    assume "yhi \<le> yearFromDay x"
    then have "dayFromYear yhi \<le> dayFromYear (yearFromDay x)"
      by (intro dayFromYear_mono_le) simp
    with s assms show False by linarith
  qed
  then show "yearFromDay x < yhi" by simp
qed

lemma specificDate_total:
  assumes "clockOk today" and "length m \<le> 2" and "length d \<le> 2"
  shows "\<exists>x. specificDate today m d = Inr (Some x) \<and> timeClip x = Some x"
proof -
  define month where "month = int (parseInt m) - 1"
  define day where "day = int (parseInt d)"
  define year where "year = yearFromDay today"
  define sd where "sd = makeDay year month day"
  have y: "1970 \<le> year" "year \<le> 9999"
    unfolding year_def using assms(1) by (rule yearFromDay_clock)+
  have mo: "- 12 \<le> month" "month \<le> 107"
    using parseInt_two [OF assms(2)] by (simp_all add: month_def)
  have dy: "- 400 \<le> day" "day \<le> 400"
    using parseInt_two [OF assms(3)] by (simp_all add: day_def)
  have c: "dayFromYear 1969 = - 365" "dayFromYear 1967 = - 1096"
    by (simp_all add: dayFromYear_def)
  have yy: "year \<le> 10000"
    using y by simp
  note mr = makeDay_range [OF y(1) yy mo dy]
  have r1: "- 766 \<le> sd"
    using mr(1) by (simp add: c sd_def)
  have r2: "sd \<le> 2940000"
    using mr(2) by (simp add: sd_def)
  have n: "newDate year month day = Some sd"
    using y r1 r2 by (simp add: newDate_def sd_def timeClip_range)
  have e: "specificDate today m d = (if sd < today then isoDate (nextFullYear sd) else isoDate (Some sd))"
    by (simp add: specificDate_def Let_def month_def [symmetric] day_def [symmetric]
          year_def [symmetric] n)
  show ?thesis
  proof (cases "sd < today")
    case False
    then show ?thesis
      using e r1 r2 by (simp add: isoDate_def toISOString_def timeClip_range)
  next
    case True
    define x where "x = makeDay (yearFromDay sd + 1) (int (monthFromDay sd)) (dateFromDay sd)"
    have "dayFromYear 1967 \<le> sd" "sd < dayFromYear 10000"
      using True assms(1) r1 by (simp_all add: clockOk_def c)
    then have ys: "1967 \<le> yearFromDay sd" "yearFromDay sd < 10000"
      by (rule yearFromDay_range)+
    have a: "1968 \<le> yearFromDay sd + 1" "yearFromDay sd + 1 \<le> 10000"
       "- 12 \<le> int (monthFromDay sd)" "int (monthFromDay sd) \<le> 107"
      using ys monthFromDay_less [of sd] by simp_all
    note xr = makeDay_range [OF a dateFromDay_range [of sd]]
    have x1: "- 1500 \<le> x"
      using xr(1) by (simp add: c x_def)
    have x2: "x \<le> 2940000"
      using xr(2) by (simp add: x_def)
    have "nextFullYear sd = Some x"
      by (simp add: nextFullYear_def x_def [symmetric] timeClip_range x1 x2)
    then show ?thesis
      using e True x1 x2 by (simp add: isoDate_def toISOString_def timeClip_range)
  qed
qed

lemma specificDate_13_5:
  assumes "clockOk today"
  shows "\<exists>x. specificDate today ''13'' ''5'' = Inr (Some x)
          \<and> yearFromDay x = yearFromDay today + 1 \<and> monthFromDay x = 0 \<and> dateFromDay x = 5"
proof -
  define year where "year = yearFromDay today"
  define y1 where "y1 = year + 1"
  define y2 where "y2 = y1 + 1"
  define sd where "sd = dayFromYear y1 + 4"
  have y: "1970 \<le> year" "year \<le> 9999"
    unfolding year_def using assms(1) by (rule yearFromDay_clock)+
  have p: "int (parseInt ''13'') - 1 = 12" "int (parseInt ''5'') = 5"
    by (simp_all add: parseInt_def digitVal_def digits_def)
  have m: "makeDay year 12 5 = sd"
    by (simp add: makeDay_def Let_def sd_def y1_def daysBeforeMonth_def)
  have t: "today < dayFromYear y1"
    unfolding y1_def year_def by (rule yearFromDay_spec)
  have r: "- 1500 \<le> sd" "sd \<le> 2940000"
    using dayFromYear_bounds [of y1] y y1_def sd_def by linarith+
  have n: "newDate year 12 5 = Some sd"
    using y r by (simp add: newDate_def m timeClip_range)
  have e: "specificDate today ''13'' ''5'' = Inr (Some sd)"
    using t by (simp add: specificDate_def Let_def p year_def [symmetric] n isoDate_def
          toISOString_def sd_def)
  have "dayFromYear y1 \<le> sd"
    by (simp add: sd_def)
  moreover have "sd < dayFromYear y2"
    using dayFromYear_bounds [of y1] dayFromYear_bounds [of y2] y2_def sd_def by linarith
  ultimately have ys: "yearFromDay sd = y1"
    unfolding y2_def by (rule yearFromDay_unique)
  have w: "dayWithinYear sd = 4"
    unfolding dayWithinYear_def ys by (simp add: sd_def)
  have mf: "monthFromDay sd = 0"
    by (simp add: monthFromDay_def w daysBeforeMonth_def)
  have df: "dateFromDay sd = 5"
    by (simp add: dateFromDay_def w mf daysBeforeMonth_def)
  show ?thesis
    using e ys mf df by (simp add: y1_def year_def)
qed

lemma relativeDate_ok: "clockOk today \<Longrightarrow> \<exists>d1. relativeDate today lowerText = Inr d1"
  by (simp add: relativeDate_first)

lemma dueDateOf_inDays:
  assumes "clockOk today"
    and "firstMatch inDaysAt lowerText = Some g"
    and "today + int (parseInt g) \<le> maxDay"
    and "firstMatch dateAt text = None"
  shows "dueDateOf today text lowerText = Inr (Some (today + int (parseInt g)))"
proof -
  obtain d1 where "relativeDate today lowerText = Inr d1"
    using relativeDate_ok [OF assms(1)] by blast
  then show ?thesis
    using assms by (simp add: dueDateOf_def inDaysDate_def specificDateRule_def isoDate_addDays)
qed

lemma dueDateOf_specific:
  assumes "clockOk today"
    and "firstMatch dateAt text = Some (m, d)"
    and "\<forall>g. firstMatch inDaysAt lowerText = Some g \<longrightarrow> today + int (parseInt g) \<le> maxDay"
  shows "dueDateOf today text lowerText = specificDate today m d"
proof -
  obtain d1 where d1: "relativeDate today lowerText = Inr d1"
    using relativeDate_ok [OF assms(1)] by blast
  have "\<exists>d2. inDaysDate today lowerText d1 = Inr d2"
  proof (cases "firstMatch inDaysAt lowerText")
    case None
    then show ?thesis by (simp add: inDaysDate_def)
  next
    case (Some g)
    then show ?thesis
      using assms(1,3) by (simp add: inDaysDate_def isoDate_addDays)
  qed
  then obtain d2 where "inDaysDate today lowerText d1 = Inr d2" ..
  then show ?thesis
    using d1 assms(2) by (simp add: dueDateOf_def specificDateRule_def)
qed

lemma firstMatch_dateAt_groups:
  "firstMatch dateAt text = Some (m, d) \<Longrightarrow> length m \<le> 2 \<and> length d \<le> 2"
  using firstMatch_Some [of dateAt "text" "(m, d)"] dateAt_groups by blast

subsection \<open>White space and words\<close>

lemma spacesPattern_Cons:
  "spacesPattern prevWord (c # cs) =
    (if isSpace c then Some (Suc (length (takeWhile isSpace cs))) else None)"
  by (simp add: spacesPattern_def Let_def)

lemma space_not_word: "isSpace c \<Longrightarrow> \<not> isWord c"
  by (auto simp add: isSpace_def isWord_def lowerLetters_def upperLetters_def digits_def)

lemma collapse_space:
  "isSpace c \<Longrightarrow>
    replaceAll spacesPattern rep prevWord (c # cs)
      = rep @ replaceAll spacesPattern rep False (dropWhile isSpace cs)"
proof -
  assume c: "isSpace c"
  have l: "last (take (Suc (length (takeWhile isSpace cs))) (c # cs)) \<in> set (c # takeWhile isSpace cs)"
  proof -
    have "take (Suc (length (takeWhile isSpace cs))) (c # cs) = c # takeWhile isSpace cs"
      by (simp add: takeWhile_eq_take [symmetric])
    then show ?thesis using last_in_set [of "c # takeWhile isSpace cs"] by simp
  qed
  have "isSpace (last (take (Suc (length (takeWhile isSpace cs))) (c # cs)))"
    using l c by (auto dest: set_takeWhileD)
  then have nw: "\<not> isWord (last (take (Suc (length (takeWhile isSpace cs))) (c # cs)))"
    by (rule space_not_word)
  show ?thesis
    using c nw by (simp add: replaceAll.simps(2) spacesPattern_Cons dropWhile_eq_drop [symmetric] del: take_Suc_Cons)
qed

lemma collapse_other:
  "\<not> isSpace c \<Longrightarrow>
    replaceAll spacesPattern rep prevWord (c # cs)
      = c # replaceAll spacesPattern rep (isWord c) cs"
  by (simp add: replaceAll.simps(2) spacesPattern_Cons)

declare replaceAll.simps(2) [simp del]

lemma collapse_dropWhile:
  "dropWhile isSpace (replaceAll spacesPattern '' '' prevWord s)
    = replaceAll spacesPattern '' '' False (dropWhile isSpace s)"
proof (induction s arbitrary: prevWord rule: length_induct)
  case (1 s)
  show ?case
  proof (cases s)
    case Nil
    then show ?thesis by simp
  next
    case (Cons c cs)
    show ?thesis
    proof (cases "isSpace c")
      case True
      have sp: "isSpace (CHR '' '')" by (simp add: isSpace_def)
      have "length (dropWhile isSpace cs) < length s"
        using Cons length_dropWhile_le [of isSpace cs] by simp
      then have "dropWhile isSpace (replaceAll spacesPattern '' '' False (dropWhile isSpace cs))
                  = replaceAll spacesPattern '' '' False (dropWhile isSpace (dropWhile isSpace cs))"
        using 1 by blast
      then show ?thesis
        using True Cons sp by (simp add: collapse_space dropWhile_idem)
    next
      case False
      then show ?thesis
        using Cons by (cases "isWord c") (simp_all add: collapse_other collapse_space)
    qed
  qed
qed

lemma trim_Cons:
  "\<not> isSpace c \<Longrightarrow> trim (c # u) = c # rev (dropWhile isSpace (rev u))"
  by (simp add: trim_def dropWhile_append)

lemma trim_dropWhile: "trim s = trim (dropWhile isSpace s)"
  by (simp add: trim_def dropWhile_idem)

lemma cleaned_cases:
  "(dropWhile isSpace (removals text) = [] \<and> cleaned text = [])
   \<or> (\<exists>c u v. dropWhile isSpace (removals text) = c # u \<and> \<not> isSpace c \<and> cleaned text = c # v)"
proof (cases "dropWhile isSpace (removals text)")
  case Nil
  have "cleaned text = trim (dropWhile isSpace (replaceAll spacesPattern '' '' False (removals text)))"
    unfolding cleaned_def by (rule trim_dropWhile)
  then show ?thesis
    using Nil by (simp add: collapse_dropWhile trim_def)
next
  case (Cons c u)
  then have c: "\<not> isSpace c"
    using hd_dropWhile [of isSpace "removals text"] by simp
  have "cleaned text = trim (dropWhile isSpace (replaceAll spacesPattern '' '' False (removals text)))"
    unfolding cleaned_def by (rule trim_dropWhile)
  then have "cleaned text = trim (c # replaceAll spacesPattern '' '' (isWord c) u)"
    using Cons c by (simp add: collapse_dropWhile collapse_other)
  then show ?thesis
    using Cons c by (simp add: trim_Cons)
qed

lemma isWord_upperChar: "isWord (upperChar c) = isWord c"
  by (auto simp add: isWord_def upperChar_def lowerLetters_def upperLetters_def digits_def)

lemma lowerChar_upperChar: "lowerChar (upperChar c) = lowerChar c"
  by (auto simp add: lowerChar_def upperChar_def lowerLetters_def upperLetters_def)

lemma lowerChar_letter: "lowerChar c \<in> set lowerLetters \<Longrightarrow> isWord c"
  by (auto simp add: lowerChar_def isWord_def lowerLetters_def upperLetters_def digits_def
      split: if_splits)

lemma wordsAcc_flush:
  "s = [] \<or> \<not> isWord (hd s) \<Longrightarrow>
    wordsAcc cur s = (if cur = [] then [] else [cur]) @ wordsAcc [] s"
  by (cases s) auto

lemma wordsAcc_word:
  "list_all isWord w \<Longrightarrow> wordsAcc cur (w @ rest) = wordsAcc (cur @ w) rest"
  by (induction w arbitrary: cur) auto

lemma wordsAcc_skip:
  "(\<And>c. P c \<Longrightarrow> \<not> isWord c) \<Longrightarrow> wordsAcc [] (dropWhile P s) = wordsAcc [] s"
  by (induction s) auto

lemma wordsAcc_nonword_suffix:
  "list_all (\<lambda>c. \<not> isWord c) t \<Longrightarrow> wordsAcc cur (s @ t) = wordsAcc cur s"
proof (induction s arbitrary: cur)
  case Nil
  then show ?case by (induction t arbitrary: cur) auto
next
  case (Cons c cs)
  then show ?case by simp
qed

lemma wordsAcc_lower:
  "toLowerCase cur = toLowerCase cur' \<Longrightarrow>
    map toLowerCase (wordsAcc cur s) = map toLowerCase (wordsAcc cur' s)"
proof (induction s arbitrary: cur cur')
  case Nil
  then show ?case by (auto simp add: toLowerCase_def)
next
  case (Cons c cs)
  have e: "cur = [] \<longleftrightarrow> cur' = []"
    using Cons.prems by (auto simp add: toLowerCase_def)
  have "toLowerCase (cur @ [c]) = toLowerCase (cur' @ [c])"
    using Cons.prems by (simp add: toLowerCase_def)
  then have "map toLowerCase (wordsAcc (cur @ [c]) cs) = map toLowerCase (wordsAcc (cur' @ [c]) cs)"
    by (rule Cons.IH)
  then show ?case
    using Cons.prems e by simp
qed

lemma wordsOf_capitalize: "map toLowerCase (wordsOf (capitalize s)) = map toLowerCase (wordsOf s)"
proof (cases s)
  case Nil
  then show ?thesis by (simp add: capitalize_def)
next
  case (Cons c cs)
  have "toLowerCase [upperChar c] = toLowerCase [c]"
    by (simp add: toLowerCase_def lowerChar_upperChar)
  then have "map toLowerCase (wordsAcc [upperChar c] cs) = map toLowerCase (wordsAcc [c] cs)"
    by (rule wordsAcc_lower)
  then show ?thesis
    using Cons by (simp add: capitalize_def wordsOf_def isWord_upperChar)
qed

lemma wordsOf_trim: "wordsOf (trim s) = wordsOf s"
proof -
  define u where "u = dropWhile isSpace s"
  have "u = rev (dropWhile isSpace (rev u)) @ rev (takeWhile isSpace (rev u))"
    by (metis rev_append rev_rev_ident takeWhile_dropWhile_id)
  moreover have "list_all (\<lambda>c. \<not> isWord c) (rev (takeWhile isSpace (rev u)))"
    by (auto simp add: list_all_iff dest: set_takeWhileD space_not_word)
  ultimately have "wordsAcc [] u = wordsAcc [] (rev (dropWhile isSpace (rev u)))"
    using wordsAcc_nonword_suffix [of "rev (takeWhile isSpace (rev u))" "[]" "rev (dropWhile isSpace (rev u))"]
    by simp
  moreover have "wordsAcc [] u = wordsAcc [] s"
    unfolding u_def by (rule wordsAcc_skip) (rule space_not_word)
  ultimately show ?thesis
    by (simp add: wordsOf_def trim_def u_def)
qed

lemma wordsOf_collapse:
  "wordsAcc cur (replaceAll spacesPattern '' '' prevWord s) = wordsAcc cur s"
proof (induction s arbitrary: cur prevWord rule: length_induct)
  case (1 s)
  show ?case
  proof (cases s)
    case Nil
    then show ?thesis by simp
  next
    case (Cons c cs)
    show ?thesis
    proof (cases "isSpace c")
      case True
      have sp: "\<not> isWord (CHR '' '')" "\<not> isWord c"
        using True by (simp_all add: space_not_word isSpace_def)
      have "length (dropWhile isSpace cs) < length s"
        using Cons length_dropWhile_le [of isSpace cs] by simp
      then have "wordsAcc [] (replaceAll spacesPattern '' '' False (dropWhile isSpace cs))
                  = wordsAcc [] (dropWhile isSpace cs)"
        using 1 by blast
      also have "\<dots> = wordsAcc [] cs"
        by (rule wordsAcc_skip) (rule space_not_word)
      finally show ?thesis
        using True Cons sp by (simp add: collapse_space)
    next
      case False
      have "length cs < length s"
        using Cons by simp
      then have "\<And>cur pw. wordsAcc cur (replaceAll spacesPattern '' '' pw cs) = wordsAcc cur cs"
        using 1 by blast
      then show ?thesis
        using False Cons by (simp add: collapse_other)
    qed
  qed
qed

subsection \<open>The recurrence pattern\<close>

lemma recurring_nonword:
  assumes "\<not> isWord c"
  shows "recurringPattern prevWord (c # cs) = None"
proof -
  have "\<And>x. x \<in> set lowerLetters \<Longrightarrow> lowerChar c \<noteq> x"
    using assms lowerChar_letter by blast
  then have "lowerChar c \<noteq> CHR ''e''" "lowerChar c \<noteq> CHR ''d''" "lowerChar c \<noteq> CHR ''w''"
    "lowerChar c \<noteq> CHR ''m''"
    by (simp_all add: lowerLetters_def)
  then show ?thesis
    by (simp add: recurringPattern_def boundedGroup_def literal_def)
qed

lemma recurring_inside_word:
  "isWord c \<Longrightarrow> recurringPattern True (c # cs) = None"
  by (simp add: recurringPattern_def boundedGroup_def boundary_def)

lemma recurring_remove_nonword:
  "\<not> isWord c \<Longrightarrow>
    replaceAll recurringPattern [] prevWord (c # cs) = c # replaceAll recurringPattern [] False cs"
  by (simp add: replaceAll.simps(2) recurring_nonword)

lemma recurring_remove_run:
  "list_all isWord w \<Longrightarrow>
    replaceAll recurringPattern [] True (w @ rest) = w @ replaceAll recurringPattern [] True rest"
  by (induction w) (simp_all add: replaceAll.simps(2) recurring_inside_word)

lemma recurring_remove_prev:
  "s = [] \<or> \<not> isWord (hd s) \<Longrightarrow>
    replaceAll recurringPattern [] prevWord s = replaceAll recurringPattern [] False s"
  by (cases s) (simp_all add: recurring_remove_nonword)

lemma find_SomeD: "find P xs = Some x \<Longrightarrow> P x \<and> x \<in> set xs"
  by (induction xs) (auto split: if_splits)

lemma recurring_match:
  assumes "recurringPattern prevWord s = Some n"
  shows "1 \<le> n" and "boundaryAfter s n"
proof -
  from assms have f: "find (boundaryAfter s)
      (concat (map (\<lambda>alt. alt s) (map literal
        [''every day'', ''daily'', ''every week'', ''weekly'', ''every month'', ''monthly'']))) = Some n"
    by (simp add: recurringPattern_def boundedGroup_def split: if_splits)
  then show "boundaryAfter s n"
    by (auto dest: find_SomeD)
  from f have "n \<in> set (concat (map (\<lambda>alt. alt s) (map literal
        [''every day'', ''daily'', ''every week'', ''weekly'', ''every month'', ''monthly''])))"
    by (auto dest: find_SomeD)
  then show "1 \<le> n"
    by (auto simp add: literal_def split: if_splits)
qed

lemma startsWithCI_lower: "startsWithCI (w @ rest) (map lowerChar w)"
  by (induction w) simp_all

lemma recurring_whole_word:
  assumes "isWord c"
    and "toLowerCase (takeWhile isWord (c # cs)) \<in> set recurrenceWords"
  shows "recurringPattern False (c # cs) \<noteq> None"
proof -
  define s where "s = c # cs"
  define w where "w = takeWhile isWord s"
  define k where "k = toLowerCase w"
  have sw: "s = w @ dropWhile isWord s"
    by (simp add: w_def)
  have wne: "w \<noteq> []"
    using assms(1) by (simp add: w_def s_def)
  have st: "startsWithCI s k"
    using startsWithCI_lower [of w "dropWhile isWord s"] sw by (simp add: k_def toLowerCase_def)
  have lk: "length k = length w"
    by (simp add: k_def toLowerCase_def)
  have tk: "take (length w) s = w" "drop (length w) s = dropWhile isWord s"
    using sw by (metis append_eq_conv_conj)+
  have "last w \<in> set w"
    using wne by simp
  then have lw: "isWord (last w)"
    unfolding w_def by (auto dest: set_takeWhileD)
  have nx: "dropWhile isWord s = [] \<or> \<not> isWord (hd (dropWhile isWord s))"
    using hd_dropWhile [of isWord s] by blast
  have "boundaryAfter s (length w)"
    using lw nx wne by (auto simp add: boundaryAfter_def boundary_def tk)
  then have ba: "boundaryAfter s (length k)"
    by (simp only: lk)
  have kk: "k \<in> set [''every day'', ''daily'', ''every week'', ''weekly'', ''every month'', ''monthly'']"
    using assms(2) by (auto simp add: k_def w_def s_def recurrenceWords_def)
  have "length k \<in> set (concat (map (\<lambda>alt. alt s) (map literal
        [''every day'', ''daily'', ''every week'', ''weekly'', ''every month'', ''monthly''])))"
    using kk st by (auto simp add: literal_def)
  then have "find (boundaryAfter s) (concat (map (\<lambda>alt. alt s) (map literal
        [''every day'', ''daily'', ''every week'', ''weekly'', ''every month'', ''monthly'']))) \<noteq> None"
    using ba by (auto simp add: find_None_iff)
  moreover have "boundary False s"
    using assms(1) by (simp add: boundary_def s_def)
  ultimately show ?thesis
    unfolding s_def [symmetric] by (simp add: recurringPattern_def boundedGroup_def)
qed

lemma recurring_words_removed:
  "\<forall>w\<in>set (wordsAcc [] (replaceAll recurringPattern [] False s)).
      toLowerCase w \<notin> set recurrenceWords"
proof (induction s rule: length_induct)
  case (1 s)
  show ?case
  proof (cases s)
    case Nil
    then show ?thesis by simp
  next
    case (Cons c cs)
    show ?thesis
    proof (cases "isWord c")
      case False
      have "length cs < length s"
        using Cons by simp
      then have "\<forall>w\<in>set (wordsAcc [] (replaceAll recurringPattern [] False cs)).
          toLowerCase w \<notin> set recurrenceWords"
        using 1 by blast
      then show ?thesis
        using False Cons by (simp add: recurring_remove_nonword)
    next
      case True
      show ?thesis
      proof (cases "recurringPattern False s")
        case (Some n)
        have n: "1 \<le> n" and ba: "boundaryAfter s n"
          using Some by (rule recurring_match)+
        define rest where "rest = drop n s"
        define pw where "pw = isWord (last (take n s))"
        have dr: "drop (n - 1) cs = rest"
          using n Cons by (cases n) (simp_all add: rest_def)
        have "length rest < length s"
          using n Cons by (simp add: rest_def)
        then have ih: "\<forall>w\<in>set (wordsAcc [] (replaceAll recurringPattern [] False rest)).
            toLowerCase w \<notin> set recurrenceWords"
          using 1 by blast
        have "boundary pw rest"
          using ba n by (simp add: boundaryAfter_def pw_def rest_def)
        then have "\<not> pw \<or> rest = [] \<or> \<not> isWord (hd rest)"
          by (auto simp add: boundary_def)
        then have "replaceAll recurringPattern [] pw rest = replaceAll recurringPattern [] False rest"
          using recurring_remove_prev [of rest pw] by (cases pw) auto
        moreover have "replaceAll recurringPattern [] False s = replaceAll recurringPattern [] pw rest"
          using Some Cons dr by (simp add: replaceAll.simps(2) pw_def)
        ultimately show ?thesis
          using ih by simp
      next
        case None
        define w where "w = takeWhile isWord s"
        define rest where "rest = dropWhile isWord s"
        have sw: "s = w @ rest"
          by (simp add: w_def rest_def)
        have wa: "list_all isWord w"
          by (auto simp add: w_def list_all_iff dest: set_takeWhileD)
        have wc: "w = c # takeWhile isWord cs" "rest = dropWhile isWord cs"
          using True Cons by (simp_all add: w_def rest_def)
        have nx: "rest = [] \<or> \<not> isWord (hd rest)"
          unfolding rest_def using hd_dropWhile [of isWord s] by blast
        have "length rest < length s"
          using wc Cons length_dropWhile_le [of isWord cs] by simp
        then have ih: "\<forall>w\<in>set (wordsAcc [] (replaceAll recurringPattern [] False rest)).
            toLowerCase w \<notin> set recurrenceWords"
          using 1 by blast
        have "replaceAll recurringPattern [] False s = c # replaceAll recurringPattern [] True cs"
          using None Cons True by (simp add: replaceAll.simps(2))
        also have "cs = takeWhile isWord cs @ rest"
          by (simp add: wc)
        then have "replaceAll recurringPattern [] True cs
                = takeWhile isWord cs @ replaceAll recurringPattern [] True rest"
          using recurring_remove_run [of "takeWhile isWord cs" rest]
          by (auto simp add: list_all_iff dest: set_takeWhileD)
        also have "replaceAll recurringPattern [] True rest = replaceAll recurringPattern [] False rest"
          using nx by (rule recurring_remove_prev)
        finally have r: "replaceAll recurringPattern [] False s
                = w @ replaceAll recurringPattern [] False rest"
          by (simp add: wc)
        have f: "replaceAll recurringPattern [] False rest = []
                  \<or> \<not> isWord (hd (replaceAll recurringPattern [] False rest))"
          using nx by (cases rest) (simp_all add: recurring_remove_nonword)
        have "wordsAcc [] (replaceAll recurringPattern [] False s)
                = wordsAcc w (replaceAll recurringPattern [] False rest)"
          using wordsAcc_word [OF wa, of "[]"] by (simp add: r)
        also have "\<dots> = [w] @ wordsAcc [] (replaceAll recurringPattern [] False rest)"
          using wordsAcc_flush [OF f, of w] wc by simp
        finally have ws: "wordsAcc [] (replaceAll recurringPattern [] False s)
                = w # wordsAcc [] (replaceAll recurringPattern [] False rest)"
          by simp
        have "toLowerCase w \<notin> set recurrenceWords"
          using recurring_whole_word [OF True, of cs] None Cons by (auto simp add: w_def)
        then show ?thesis
          using ih by (simp add: ws)
      qed
    qed
  qed
qed

subsection \<open>ASCII input\<close>

text \<open>The title stages delete characters and put in spaces, so on an ASCII input every
  character they handle is an ASCII character.\<close>

lemma replaceAll_subset: "set (replaceAll p rep prevWord s) \<subseteq> set s \<union> set rep"
proof (induction p rep prevWord s rule: replaceAll.induct)
  case (1 p rep prevWord)
  then show ?case by simp
next
  case (2 p rep prevWord c cs)
  show ?case
  proof (cases "p prevWord (c # cs)")
    case None
    then show ?thesis
      using 2(1) by (auto simp add: replaceAll.simps(2))
  next
    case (Some n)
    have "set (drop (n - 1) cs) \<subseteq> set cs"
      by (rule set_drop_subset)
    then show ?thesis
      using 2(2) [OF Some] Some by (auto simp add: replaceAll.simps(2))
  qed
qed

lemma removals_subset: "set (removals text) \<subseteq> set text"
proof -
  have s: "\<And>p s. set (replaceAll p [] False s) \<subseteq> set s"
    using replaceAll_subset [of _ "[]" False] by simp
  show ?thesis
    unfolding removals_def by (intro subset_trans [OF s] s)
qed

lemma trim_subset: "set (trim s) \<subseteq> set s"
  unfolding trim_def by (auto dest!: set_dropWhileD)

lemma cleaned_subset: "set (cleaned text) \<subseteq> set text \<union> {CHR '' ''}"
proof -
  have "set (cleaned text) \<subseteq> set (replaceAll spacesPattern '' '' False (removals text))"
    unfolding cleaned_def by (rule trim_subset)
  also have "\<dots> \<subseteq> set (removals text) \<union> set '' ''"
    by (rule replaceAll_subset)
  finally show ?thesis
    using removals_subset [of "text"] by auto
qed

lemma upperChar_ascii: "isAscii c \<Longrightarrow> isAscii (upperChar c)"
  by (auto simp add: upperChar_def isAscii_def lowerLetters_def upperLetters_def)

lemma title_ascii:
  assumes "list_all isAscii text"
  shows "list_all isAscii (removals text)" and "list_all isAscii (titleOf text)"
proof -
  have sp: "isAscii (CHR '' '')"
    by (simp add: isAscii_def)
  show "list_all isAscii (removals text)"
    using assms removals_subset [of "text"] by (auto simp add: list_all_iff)
  have c: "list_all isAscii (cleaned text)"
    using assms cleaned_subset [of "text"] sp by (auto simp add: list_all_iff)
  then show "list_all isAscii (titleOf text)"
    by (cases "cleaned text") (simp_all add: titleOf_def capitalize_def upperChar_ascii)
qed

section \<open>The empty input\<close>

text \<open>
  Claim C9. Applied to the empty string, the parser raises no error and returns category
  Other, priority Medium, no due date, no due time, recurrence none and the empty
  string as the title, whatever the reference day is.
\<close>

theorem parse_empty_string:
  "parseNaturalLanguage today '''' =
     Inr \<lparr>title = '''', category = ''Other'', priority = ''Medium'',
          dueDate = None, dueTime = None, recurring = ''none''\<rparr>"
  by code_simp

section \<open>Word-based times\<close>

text \<open>
  Claim C8. When the lower-cased input contains one of the word-based time keywords
  (noon, midnight, morning, afternoon, evening, night), the due time is the time of
  the first keyword in that order that the input contains, whatever the 12-hour and
  24-hour patterns produced. The input "Meeting at 3pm in the evening" has the numeric
  time 15:00 and the parser returns the due time 18:00.
\<close>

theorem word_time_first_keyword_wins:
  "(someIncluded (map fst wordTimes) (toLowerCase text) \<longrightarrow>
     (\<exists>word time.
        find (\<lambda>(word, time). includesStr (toLowerCase text) word) wordTimes = Some (word, time)
        \<and> dueTimeOf text (toLowerCase text) = Some time
        \<and> (\<forall>r. parseNaturalLanguage today text = Inr r \<longrightarrow> dueTime r = Some time)))
   \<and> numericTime ''Meeting at 3pm in the evening'' = Some ''15:00''
   \<and> parseNaturalLanguage today ''Meeting at 3pm in the evening'' =
       Inr \<lparr>title = ''Meeting in the evening'', category = ''Work'', priority = ''Medium'',
            dueDate = None, dueTime = Some ''18:00'', recurring = ''none''\<rparr>"
proof (intro conjI impI)
  assume a: "someIncluded (map fst wordTimes) (toLowerCase text)"
  then obtain p where p: "find (\<lambda>(word, time). includesStr (toLowerCase text) word) wordTimes = Some p"
    by (cases "find (\<lambda>(word, time). includesStr (toLowerCase text) word) wordTimes")
       (auto simp add: someIncluded_def find_None_iff list_ex_iff)
  obtain word time where wt: "p = (word, time)" by (cases p)
  have "dueTimeOf text (toLowerCase text) = Some time"
    by (simp add: dueTimeOf_find p wt)
  then show "\<exists>word time.
        find (\<lambda>(word, time). includesStr (toLowerCase text) word) wordTimes = Some (word, time)
        \<and> dueTimeOf text (toLowerCase text) = Some time
        \<and> (\<forall>r. parseNaturalLanguage today text = Inr r \<longrightarrow> dueTime r = Some time)"
    using p wt parse_dueTime by auto
next
  show "numericTime ''Meeting at 3pm in the evening'' = Some ''15:00''" by code_simp
next
  show "parseNaturalLanguage today ''Meeting at 3pm in the evening'' =
       Inr \<lparr>title = ''Meeting in the evening'', category = ''Work'', priority = ''Medium'',
            dueDate = None, dueTime = Some ''18:00'', recurring = ''none''\<rparr>"
    by code_simp
qed

theorem word_time_first_keyword_wins_witness:
  "someIncluded (map fst wordTimes) (toLowerCase ''Lunch at 12:30 this afternoon'')
   \<and> numericTime ''Lunch at 12:30 this afternoon'' = Some ''12:30''
   \<and> dueTimeOf ''Lunch at 12:30 this afternoon'' (toLowerCase ''Lunch at 12:30 this afternoon'') = Some ''12:00''
   \<and> parseNaturalLanguage 20760 ''Lunch at 12:30 this afternoon'' =
       Inr \<lparr>title = ''Lunch this afternoon'', category = ''Personal'', priority = ''Medium'',
            dueDate = None, dueTime = Some ''12:00'', recurring = ''none''\<rparr>"
proof -
  have h: "someIncluded (map fst wordTimes) (toLowerCase ''Lunch at 12:30 this afternoon'')"
    by code_simp
  have f: "find (\<lambda>(word, time). includesStr (toLowerCase ''Lunch at 12:30 this afternoon'') word) wordTimes
            = Some (''noon'', ''12:00'')"
    by code_simp
  have n: "numericTime ''Lunch at 12:30 this afternoon'' = Some ''12:30''"
    by code_simp
  have p: "parseNaturalLanguage 20760 ''Lunch at 12:30 this afternoon'' =
       Inr \<lparr>title = ''Lunch this afternoon'', category = ''Personal'', priority = ''Medium'',
            dueDate = None, dueTime = Some ''12:00'', recurring = ''none''\<rparr>"
    by code_simp
  from word_time_first_keyword_wins [of "''Lunch at 12:30 this afternoon''" 20760] h f
  have "dueTimeOf ''Lunch at 12:30 this afternoon'' (toLowerCase ''Lunch at 12:30 this afternoon'') = Some ''12:00''"
    by auto
  with h n p show ?thesis by simp
qed

section \<open>The 12-hour pattern\<close>

text \<open>
  Claim C7 says that every due time has an hour below 24 and a minute below 60. The
  24-hour branch checks both ranges; the 12-hour branch does not: the hour 25 with
  "pm" becomes 37.
\<close>

theorem twelve_hour_branch_out_of_range:
  "parseNaturalLanguage 20760 ''Call at 25pm'' =
     Inr \<lparr>title = ''Call'', category = ''Work'', priority = ''Medium'',
          dueDate = None, dueTime = Some ''37:00'', recurring = ''none''\<rparr>"
  by code_simp

section \<open>Relative phrases\<close>

text \<open>
  Claim C2 says that a later relative-phrase rule overwrites an earlier one. The rules
  are an \<^verbatim>\<open>if\<close>/\<^verbatim>\<open>else if\<close> chain: with "tomorrow" and "next week" in the input, the
  due date is today + 1, not today + 7.
\<close>

theorem relative_rules_last_match_counterexample:
  "parseNaturalLanguage 20760 ''Call Bob tomorrow or next week'' =
     Inr \<lparr>title = ''Call Bob or'', category = ''Work'', priority = ''Medium'',
          dueDate = Some (20760 + 1), dueTime = None, recurring = ''none''\<rparr>"
  by code_simp

text \<open>
  Claim C2, amended. With the reference day between 1970 and 9999, when neither the
  "in N days" pattern nor the M/D pattern matches, the due date is given by the first
  relative-phrase rule, in the declared order, that matches the lower-cased input; it
  is absent when no rule matches.
\<close>

theorem relative_rules_first_match_wins:
  assumes "clockOk today"
    and "firstMatch inDaysAt (toLowerCase text) = None"
    and "firstMatch dateAt text = None"
  shows "map_sum id dueDate (parseNaturalLanguage today text) =
          Inr (map_option (\<lambda>offset. today + offset) (firstMatchingRule today (toLowerCase text)))"
  using assms
  by (simp add: parse_dueDate dueDateOf_def relativeDate_first inDaysDate_def specificDateRule_def)

theorem relative_rules_first_match_wins_witness:
  "clockOk 20760
   \<and> firstMatch inDaysAt (toLowerCase ''Call Bob tomorrow or next week'') = None
   \<and> firstMatch dateAt ''Call Bob tomorrow or next week'' = None
   \<and> map_sum id dueDate (parseNaturalLanguage 20760 ''Call Bob tomorrow or next week'')
       = Inr (Some 20761)"
proof -
  have h1: "clockOk 20760"
    by (simp add: clockOk_range)
  have h2: "firstMatch inDaysAt (toLowerCase ''Call Bob tomorrow or next week'') = None"
    by code_simp
  have h3: "firstMatch dateAt ''Call Bob tomorrow or next week'' = None"
    by code_simp
  have r: "firstMatchingRule 20760 (toLowerCase ''Call Bob tomorrow or next week'') = Some 1"
    by code_simp
  from relative_rules_first_match_wins [OF h1 h2 h3] r h1 h2 h3 show ?thesis
    by simp
qed

section \<open>The weekend rule\<close>

text \<open>
  Claim C5 says that an input with "weekend", "saturday" or "sunday" and without
  "tomorrow", "today" and "next week" gets the next Saturday as its due date. The
  "in N days" rule runs afterwards and overwrites that date: on a Tuesday the input
  below gets the Thursday.
\<close>

theorem weekend_rule_overwritten_counterexample:
  "parseNaturalLanguage 20760 ''Trip this weekend, pack in 2 days'' =
     Inr \<lparr>title = ''Trip , pack'', category = ''Other'', priority = ''Medium'',
          dueDate = Some (20760 + 2), dueTime = None, recurring = ''none''\<rparr>
   \<and> getDay 20760 = 2"
  by code_simp

text \<open>
  Claim C5, amended. Take the reference day between 1970 and 9999. For an input whose
  lower-cased text contains "weekend", "saturday" or "sunday" and none of "tomorrow",
  "today" and "next week", and in which neither the "in N days" pattern nor the M/D
  pattern matches, the due date is today plus \<open>(6 - weekday + 7) mod 7\<close> days, with 7
  in place of 0. It is a Saturday, one to seven days after today, and so never today.
\<close>

theorem weekend_rule_next_saturday:
  assumes "clockOk today"
    and "includesStr (toLowerCase text) ''weekend'' \<or> includesStr (toLowerCase text) ''saturday''
          \<or> includesStr (toLowerCase text) ''sunday''"
    and "\<not> includesStr (toLowerCase text) ''tomorrow''"
    and "\<not> includesStr (toLowerCase text) ''today''"
    and "\<not> includesStr (toLowerCase text) ''next week''"
    and "firstMatch inDaysAt (toLowerCase text) = None"
    and "firstMatch dateAt text = None"
  shows "\<exists>offset.
          offset = (let k = (6 - getDay today + 7) mod 7 in if k = 0 then 7 else k)
          \<and> map_sum id dueDate (parseNaturalLanguage today text) = Inr (Some (today + offset))
          \<and> 1 \<le> offset \<and> offset \<le> 7
          \<and> getDay (today + offset) = 6
          \<and> today + offset \<noteq> today"
proof -
  have r: "firstMatchingRule today (toLowerCase text) = Some (nextWeekday today 6)"
    using assms(2-5) by (auto simp add: firstMatchingRule_def relativeRules_def someIncluded_def)
  have d: "map_sum id dueDate (parseNaturalLanguage today text) = Inr (Some (today + nextWeekday today 6))"
    using assms(1,6,7) r
    by (simp add: parse_dueDate dueDateOf_def relativeDate_first inDaysDate_def specificDateRule_def)
  have b: "1 \<le> nextWeekday today 6 \<and> nextWeekday today 6 \<le> 7"
    by (rule nextWeekday_bounds)
  have g: "getDay (today + nextWeekday today 6) = 6"
    by (rule getDay_nextWeekday) simp_all
  have e: "nextWeekday today 6 = (let k = (6 - getDay today + 7) mod 7 in if k = 0 then 7 else k)"
    by (simp only: nextWeekday_def)
  from d b g e show ?thesis
    by (intro exI [of _ "nextWeekday today 6"]) auto
qed

theorem weekend_rule_next_saturday_witness:
  "clockOk 20764
   \<and> getDay 20764 = 6
   \<and> includesStr (toLowerCase ''Hike this Saturday'') ''saturday''
   \<and> \<not> includesStr (toLowerCase ''Hike this Saturday'') ''tomorrow''
   \<and> \<not> includesStr (toLowerCase ''Hike this Saturday'') ''today''
   \<and> \<not> includesStr (toLowerCase ''Hike this Saturday'') ''next week''
   \<and> firstMatch inDaysAt (toLowerCase ''Hike this Saturday'') = None
   \<and> firstMatch dateAt ''Hike this Saturday'' = None
   \<and> map_sum id dueDate (parseNaturalLanguage 20764 ''Hike this Saturday'') = Inr (Some (20764 + 7))"
proof -
  have h1: "clockOk 20764"
    by (simp add: clockOk_range)
  have h2: "includesStr (toLowerCase ''Hike this Saturday'') ''saturday''"
    by code_simp
  have h3: "\<not> includesStr (toLowerCase ''Hike this Saturday'') ''tomorrow''"
    by code_simp
  have h4: "\<not> includesStr (toLowerCase ''Hike this Saturday'') ''today''"
    by code_simp
  have h5: "\<not> includesStr (toLowerCase ''Hike this Saturday'') ''next week''"
    by code_simp
  have h6: "firstMatch inDaysAt (toLowerCase ''Hike this Saturday'') = None"
    by code_simp
  have h7: "firstMatch dateAt ''Hike this Saturday'' = None"
    by code_simp
  have g: "getDay 20764 = 6"
    by (simp add: getDay_def)
  from weekend_rule_next_saturday [OF h1 _ h3 h4 h5 h6 h7] h2 g
  have "map_sum id dueDate (parseNaturalLanguage 20764 ''Hike this Saturday'') = Inr (Some (20764 + 7))"
    by auto
  with h1 h2 h3 h4 h5 h6 h7 g show ?thesis by simp
qed

section \<open>The weekday-name rule\<close>

text \<open>
  Claim C6 says that an input that reaches the weekday-name rule gets the next day with
  the first weekday name found. The M/D rule runs afterwards and overwrites that date:
  on Tuesday 3 November 2026 the input below gets 25 December, not Monday 9 November.
\<close>

theorem weekday_rule_overwritten_counterexample:
  "parseNaturalLanguage 20760 ''Dentist monday 12/25'' =
     Inr \<lparr>title = ''Dentist monday 12/25'', category = ''Health'', priority = ''Medium'',
          dueDate = Some 20812, dueTime = None, recurring = ''none''\<rparr>
   \<and> getDay 20760 = 2"
  by code_simp

text \<open>
  Claim C6, amended. Take the reference day between 1970 and 9999. For an input in
  which no earlier relative-phrase rule matches and in which neither the "in N days"
  pattern nor the M/D pattern matches, let \<open>i\<close> be the first index, in the Sunday-first
  order 0..6, whose weekday name the lower-cased text contains. The due date is today
  plus \<open>(i - weekday + 7) mod 7\<close> days, with 7 in place of 0; it falls on weekday \<open>i\<close>.
  Names later in the order play no part.
\<close>

theorem weekday_rule_first_name:
  assumes "clockOk today"
    and "\<not> includesStr (toLowerCase text) ''tomorrow''"
    and "\<not> includesStr (toLowerCase text) ''today''"
    and "\<not> includesStr (toLowerCase text) ''next week''"
    and "\<not> includesStr (toLowerCase text) ''weekend''"
    and "\<not> includesStr (toLowerCase text) ''saturday''"
    and "\<not> includesStr (toLowerCase text) ''sunday''"
    and "i < length days"
    and "includesStr (toLowerCase text) (days ! i)"
    and "\<forall>j<i. \<not> includesStr (toLowerCase text) (days ! j)"
    and "firstMatch inDaysAt (toLowerCase text) = None"
    and "firstMatch dateAt text = None"
  shows "\<exists>offset.
          offset = (let k = (int i - getDay today + 7) mod 7 in if k = 0 then 7 else k)
          \<and> map_sum id dueDate (parseNaturalLanguage today text) = Inr (Some (today + offset))
          \<and> 1 \<le> offset \<and> offset \<le> 7
          \<and> getDay (today + offset) = int i"
proof -
  have l: "weekdayLoop today (toLowerCase text) 0 days
            = isoDate (addDays today (nextWeekday today (int (0 + i))))"
    using assms(8-10) by (rule weekdayLoop_first)
  have r: "relativeDate today (toLowerCase text) = Inr (Some (today + nextWeekday today (int i)))"
    using assms(2-7) l isoDate_nextWeekday [OF assms(1)] by (simp add: relativeDate_def)
  have d: "map_sum id dueDate (parseNaturalLanguage today text) = Inr (Some (today + nextWeekday today (int i)))"
    using assms(11,12) r
    by (simp add: parse_dueDate dueDateOf_def inDaysDate_def specificDateRule_def)
  have b: "1 \<le> nextWeekday today (int i) \<and> nextWeekday today (int i) \<le> 7"
    by (rule nextWeekday_bounds)
  have "i < 7" using assms(8) by (simp add: days_def)
  then have g: "getDay (today + nextWeekday today (int i)) = int i"
    by (intro getDay_nextWeekday) simp_all
  have e: "nextWeekday today (int i) = (let k = (int i - getDay today + 7) mod 7 in if k = 0 then 7 else k)"
    by (simp only: nextWeekday_def)
  from d b g e show ?thesis
    by (intro exI [of _ "nextWeekday today (int i)"]) auto
qed

theorem weekday_rule_first_name_witness:
  "clockOk 20760
   \<and> \<not> includesStr (toLowerCase ''Gym Friday or Wednesday'') ''tomorrow''
   \<and> \<not> includesStr (toLowerCase ''Gym Friday or Wednesday'') ''today''
   \<and> \<not> includesStr (toLowerCase ''Gym Friday or Wednesday'') ''next week''
   \<and> \<not> includesStr (toLowerCase ''Gym Friday or Wednesday'') ''weekend''
   \<and> \<not> includesStr (toLowerCase ''Gym Friday or Wednesday'') ''saturday''
   \<and> \<not> includesStr (toLowerCase ''Gym Friday or Wednesday'') ''sunday''
   \<and> (3::nat) < length days
   \<and> includesStr (toLowerCase ''Gym Friday or Wednesday'') (days ! 3)
   \<and> \<not> includesStr (toLowerCase ''Gym Friday or Wednesday'') (days ! 0)
   \<and> \<not> includesStr (toLowerCase ''Gym Friday or Wednesday'') (days ! 1)
   \<and> \<not> includesStr (toLowerCase ''Gym Friday or Wednesday'') (days ! 2)
   \<and> includesStr (toLowerCase ''Gym Friday or Wednesday'') (days ! 5)
   \<and> firstMatch inDaysAt (toLowerCase ''Gym Friday or Wednesday'') = None
   \<and> firstMatch dateAt ''Gym Friday or Wednesday'' = None
   \<and> getDay 20760 = 2
   \<and> map_sum id dueDate (parseNaturalLanguage 20760 ''Gym Friday or Wednesday'') = Inr (Some (20760 + 1))"
proof -
  have h1: "clockOk 20760"
    by (simp add: clockOk_range)
  have h2: "\<not> includesStr (toLowerCase ''Gym Friday or Wednesday'') ''tomorrow''"
    and h3: "\<not> includesStr (toLowerCase ''Gym Friday or Wednesday'') ''today''"
    and h4: "\<not> includesStr (toLowerCase ''Gym Friday or Wednesday'') ''next week''"
    and h5: "\<not> includesStr (toLowerCase ''Gym Friday or Wednesday'') ''weekend''"
    and h6: "\<not> includesStr (toLowerCase ''Gym Friday or Wednesday'') ''saturday''"
    and h7: "\<not> includesStr (toLowerCase ''Gym Friday or Wednesday'') ''sunday''"
    by code_simp+
  have h8: "(3::nat) < length days"
    by (simp add: days_def)
  have h9: "includesStr (toLowerCase ''Gym Friday or Wednesday'') (days ! 3)"
    and h9': "includesStr (toLowerCase ''Gym Friday or Wednesday'') (days ! 5)"
    by code_simp+
  have n0: "\<not> includesStr (toLowerCase ''Gym Friday or Wednesday'') (days ! 0)"
    and n1: "\<not> includesStr (toLowerCase ''Gym Friday or Wednesday'') (days ! 1)"
    and n2: "\<not> includesStr (toLowerCase ''Gym Friday or Wednesday'') (days ! 2)"
    by code_simp+
  then have h10: "\<forall>j<3. \<not> includesStr (toLowerCase ''Gym Friday or Wednesday'') (days ! j)"
    by (simp add: numeral_3_eq_3 numeral_2_eq_2 less_Suc_eq)
  have h11: "firstMatch inDaysAt (toLowerCase ''Gym Friday or Wednesday'') = None"
    by code_simp
  have h12: "firstMatch dateAt ''Gym Friday or Wednesday'' = None"
    by code_simp
  have g: "getDay 20760 = 2"
    by (simp add: getDay_def)
  from weekday_rule_first_name [OF h1 h2 h3 h4 h5 h6 h7 h8 h9 h10 h11 h12] g
  have "map_sum id dueDate (parseNaturalLanguage 20760 ''Gym Friday or Wednesday'') = Inr (Some (20760 + 1))"
    by auto
  with h1 h2 h3 h4 h5 h6 h7 h8 h9 h9' n0 n1 n2 h11 h12 g show ?thesis by blast
qed

section \<open>The "in N days" rule and the M/D rule\<close>

text \<open>
  Claim C3 says that with an "in N days" pattern in the input the due date is today + N
  days. A \<^verbatim>\<open>Date\<close> reaches 100,000,000 days from the epoch; beyond that the
  date is invalid and \<^verbatim>\<open>toISOString()\<close> raises, so the parser returns nothing.
\<close>

theorem in_days_out_of_range_counterexample:
  "firstMatch inDaysAt (toLowerCase ''Pay tomorrow in 999999999999 days'') = Some ''999999999999''
   \<and> parseNaturalLanguage 20760 ''Pay tomorrow in 999999999999 days'' = Inl RangeError"
proof -
  have lt: "toLowerCase ''Pay tomorrow in 999999999999 days'' = ''pay tomorrow in 999999999999 days''"
    by code_simp
  have rel: "relativeDate 20760 ''pay tomorrow in 999999999999 days'' = Inr (Some 20761)"
    by code_simp
  have m: "firstMatch inDaysAt ''pay tomorrow in 999999999999 days'' = Some ''999999999999''"
    by code_simp
  have n: "parseInt ''999999999999'' = 999999999999"
    by (simp add: parseInt_def digitVal_def digits_def)
  have i: "inDaysDate 20760 ''pay tomorrow in 999999999999 days'' (Some 20761) = Inl RangeError"
    unfolding inDaysDate_def m
    by (simp add: n isoDate_def addDays_def timeClip_def maxDay_def toISOString_def)
  have "dueDateOf 20760 ''Pay tomorrow in 999999999999 days'' ''pay tomorrow in 999999999999 days''
          = Inl RangeError"
    unfolding dueDateOf_def rel by (simp add: i)
  then have "parseNaturalLanguage 20760 ''Pay tomorrow in 999999999999 days'' = Inl RangeError"
    unfolding parseNaturalLanguage_def lt by simp
  with m lt show ?thesis
    by simp
qed

text \<open>
  Claim C3, amended. Take the reference day between 1970 and 9999. Let N be the number captured by the leftmost "in N days" match in
  the lower-cased input. If today + N days is a valid date and the M/D pattern does
  not match, the due date is today + N days, whatever relative phrases the input has.
  If the M/D pattern matches, and today + N days is a valid date in case "in N days"
  matches too, the due date is the one the M/D rule computes from the leftmost M/D
  match, whatever else the input has.
\<close>

theorem in_days_then_specific_date:
  assumes "clockOk today"
  shows "(\<forall>g. firstMatch inDaysAt (toLowerCase text) = Some g
            \<and> today + int (parseInt g) \<le> maxDay
            \<and> firstMatch dateAt text = None
          \<longrightarrow> map_sum id dueDate (parseNaturalLanguage today text)
                = Inr (Some (today + int (parseInt g))))
       \<and> (\<forall>m d. firstMatch dateAt text = Some (m, d)
            \<and> (\<forall>g. firstMatch inDaysAt (toLowerCase text) = Some g
                  \<longrightarrow> today + int (parseInt g) \<le> maxDay)
          \<longrightarrow> (\<exists>x. specificDate today m d = Inr (Some x)
                \<and> map_sum id dueDate (parseNaturalLanguage today text) = Inr (Some x)))"
proof (intro conjI allI impI)
  fix g
  assume "firstMatch inDaysAt (toLowerCase text) = Some g
            \<and> today + int (parseInt g) \<le> maxDay
            \<and> firstMatch dateAt text = None"
  then show "map_sum id dueDate (parseNaturalLanguage today text)
                = Inr (Some (today + int (parseInt g)))"
    using assms by (simp add: parse_dueDate dueDateOf_inDays)
next
  fix m d
  assume a: "firstMatch dateAt text = Some (m, d)
            \<and> (\<forall>g. firstMatch inDaysAt (toLowerCase text) = Some g
                  \<longrightarrow> today + int (parseInt g) \<le> maxDay)"
  then have "length m \<le> 2" "length d \<le> 2"
    using firstMatch_dateAt_groups by blast+
  then obtain x where x: "specificDate today m d = Inr (Some x)"
    using specificDate_total [OF assms] by blast
  have "map_sum id dueDate (parseNaturalLanguage today text) = specificDate today m d"
    using assms a by (simp add: parse_dueDate dueDateOf_specific)
  with x show "\<exists>x. specificDate today m d = Inr (Some x)
                \<and> map_sum id dueDate (parseNaturalLanguage today text) = Inr (Some x)"
    by simp
qed

theorem in_days_then_specific_date_witness:
  "clockOk 20760
   \<and> includesStr (toLowerCase ''Report tomorrow, or in 3 days'') ''tomorrow''
   \<and> firstMatch inDaysAt (toLowerCase ''Report tomorrow, or in 3 days'') = Some ''3''
   \<and> 20760 + int (parseInt ''3'') \<le> maxDay
   \<and> firstMatch dateAt ''Report tomorrow, or in 3 days'' = None
   \<and> map_sum id dueDate (parseNaturalLanguage 20760 ''Report tomorrow, or in 3 days'')
        = Inr (Some (20760 + 3))
   \<and> includesStr (toLowerCase ''Pay rent today or in 3 days, by 12/25'') ''today''
   \<and> firstMatch inDaysAt (toLowerCase ''Pay rent today or in 3 days, by 12/25'') = Some ''3''
   \<and> firstMatch dateAt ''Pay rent today or in 3 days, by 12/25'' = Some (''12'', ''25'')
   \<and> map_sum id dueDate (parseNaturalLanguage 20760 ''Pay rent today or in 3 days, by 12/25'')
        = Inr (Some 20812)
   \<and> (yearFromDay 20812, monthFromDay 20812, dateFromDay 20812) = (2026, 11, 25)"
proof -
  have h1: "clockOk 20760"
    by (simp add: clockOk_range)
  have a1: "includesStr (toLowerCase ''Report tomorrow, or in 3 days'') ''tomorrow''"
    by code_simp
  have a2: "firstMatch inDaysAt (toLowerCase ''Report tomorrow, or in 3 days'') = Some ''3''"
    by code_simp
  have n: "int (parseInt ''3'') = 3"
    by code_simp
  have a3: "20760 + int (parseInt ''3'') \<le> maxDay"
    by (simp add: n maxDay_def)
  have a4: "firstMatch dateAt ''Report tomorrow, or in 3 days'' = None"
    by code_simp
  have b1: "includesStr (toLowerCase ''Pay rent today or in 3 days, by 12/25'') ''today''"
    by code_simp
  have b2: "firstMatch inDaysAt (toLowerCase ''Pay rent today or in 3 days, by 12/25'') = Some ''3''"
    by code_simp
  have b3: "firstMatch dateAt ''Pay rent today or in 3 days, by 12/25'' = Some (''12'', ''25'')"
    by code_simp
  have b4: "specificDate 20760 ''12'' ''25'' = Inr (Some 20812)"
    by code_simp
  have b5: "(yearFromDay 20812, monthFromDay 20812, dateFromDay 20812) = (2026, 11, 25)"
    by code_simp
  note t = in_days_then_specific_date [OF h1]
  have r1: "map_sum id dueDate (parseNaturalLanguage 20760 ''Report tomorrow, or in 3 days'')
        = Inr (Some (20760 + 3))"
    using t [of "''Report tomorrow, or in 3 days''"] a2 a3 a4 n by auto
  have r2: "map_sum id dueDate (parseNaturalLanguage 20760 ''Pay rent today or in 3 days, by 12/25'')
        = Inr (Some 20812)"
    using t [of "''Pay rent today or in 3 days, by 12/25''"] b2 b3 b4 a3 by auto
  from h1 a1 a2 a3 a4 b1 b2 b3 b5 r1 r2 show ?thesis
    by simp
qed

section \<open>The M/D rule\<close>

text \<open>
  Claim C10 says that for every input with an M/D pattern the date extractor produces a
  valid date without failing. The "in N days" rule runs before the M/D rule; when its
  date is out of range it raises and the M/D rule is never reached.
\<close>

theorem specific_date_not_reached_counterexample:
  "firstMatch dateAt ''Renew passport in 999999999999 days, by 13/5'' = Some (''13'', ''5'')
   \<and> parseNaturalLanguage 20760 ''Renew passport in 999999999999 days, by 13/5'' = Inl RangeError"
proof -
  have lt: "toLowerCase ''Renew passport in 999999999999 days, by 13/5''
            = ''renew passport in 999999999999 days, by 13/5''"
    by code_simp
  have rel: "relativeDate 20760 ''renew passport in 999999999999 days, by 13/5'' = Inr None"
    by code_simp
  have m: "firstMatch inDaysAt ''renew passport in 999999999999 days, by 13/5'' = Some ''999999999999''"
    by code_simp
  have n: "parseInt ''999999999999'' = 999999999999"
    by (simp add: parseInt_def digitVal_def digits_def)
  have i: "inDaysDate 20760 ''renew passport in 999999999999 days, by 13/5'' None = Inl RangeError"
    unfolding inDaysDate_def m
    by (simp add: n isoDate_def addDays_def timeClip_def maxDay_def toISOString_def)
  have "dueDateOf 20760 ''Renew passport in 999999999999 days, by 13/5''
          ''renew passport in 999999999999 days, by 13/5'' = Inl RangeError"
    unfolding dueDateOf_def rel by (simp add: i)
  then have p: "parseNaturalLanguage 20760 ''Renew passport in 999999999999 days, by 13/5'' = Inl RangeError"
    unfolding parseNaturalLanguage_def lt by simp
  have d: "firstMatch dateAt ''Renew passport in 999999999999 days, by 13/5'' = Some (''13'', ''5'')"
    by code_simp
  from p d show ?thesis
    by blast
qed

text \<open>
  Claim C10, amended. With the reference day between 1970 and 9999, the M/D rule
  produces a valid date from every pair of groups that the M/D pattern can capture,
  also when the month or the day is out of range; that date is the due date unless the
  "in N days" rule has raised before. The groups "13" and "5" give 5 January of the
  year after the current one.
\<close>

theorem specific_date_rule_total:
  assumes "clockOk today"
  shows "(\<forall>m d. firstMatch dateAt text = Some (m, d) \<longrightarrow>
           (\<exists>x. specificDate today m d = Inr (Some x) \<and> timeClip x = Some x
              \<and> ((\<forall>g. firstMatch inDaysAt (toLowerCase text) = Some g
                        \<longrightarrow> today + int (parseInt g) \<le> maxDay)
                   \<longrightarrow> map_sum id dueDate (parseNaturalLanguage today text) = Inr (Some x))))
       \<and> (\<exists>x. specificDate today ''13'' ''5'' = Inr (Some x)
              \<and> yearFromDay x = yearFromDay today + 1 \<and> monthFromDay x = 0 \<and> dateFromDay x = 5)"
proof (intro conjI allI impI)
  fix m d
  assume a: "firstMatch dateAt text = Some (m, d)"
  then have "length m \<le> 2" "length d \<le> 2"
    using firstMatch_dateAt_groups by blast+
  then obtain x where x: "specificDate today m d = Inr (Some x)" "timeClip x = Some x"
    using specificDate_total [OF assms] by blast
  have "(\<forall>g. firstMatch inDaysAt (toLowerCase text) = Some g
              \<longrightarrow> today + int (parseInt g) \<le> maxDay)
         \<longrightarrow> map_sum id dueDate (parseNaturalLanguage today text) = Inr (Some x)"
    using dueDateOf_specific [OF assms a] x(1) by (simp add: parse_dueDate)
  with x show "\<exists>x. specificDate today m d = Inr (Some x) \<and> timeClip x = Some x
              \<and> ((\<forall>g. firstMatch inDaysAt (toLowerCase text) = Some g
                        \<longrightarrow> today + int (parseInt g) \<le> maxDay)
                   \<longrightarrow> map_sum id dueDate (parseNaturalLanguage today text) = Inr (Some x))"
    by blast
next
  show "\<exists>x. specificDate today ''13'' ''5'' = Inr (Some x)
              \<and> yearFromDay x = yearFromDay today + 1 \<and> monthFromDay x = 0 \<and> dateFromDay x = 5"
    using assms by (rule specificDate_13_5)
qed

theorem specific_date_rule_total_witness:
  "clockOk 20760
   \<and> yearFromDay 20760 = 2026
   \<and> firstMatch dateAt ''Renew passport 13/40'' = Some (''13'', ''40'')
   \<and> firstMatch inDaysAt (toLowerCase ''Renew passport 13/40'') = None
   \<and> map_sum id dueDate (parseNaturalLanguage 20760 ''Renew passport 13/40'') = Inr (Some 20858)
   \<and> timeClip 20858 = Some 20858
   \<and> (yearFromDay 20858, monthFromDay 20858, dateFromDay 20858) = (2027, 1, 9)
   \<and> specificDate 20760 ''13'' ''5'' = Inr (Some 20823)
   \<and> (yearFromDay 20823, monthFromDay 20823, dateFromDay 20823) = (2027, 0, 5)"
proof -
  have h: "clockOk 20760"
    by (simp add: clockOk_range)
  have y: "yearFromDay 20760 = 2026"
    by code_simp
  have a: "firstMatch dateAt ''Renew passport 13/40'' = Some (''13'', ''40'')"
    by code_simp
  have b: "firstMatch inDaysAt (toLowerCase ''Renew passport 13/40'') = None"
    by code_simp
  have s: "specificDate 20760 ''13'' ''40'' = Inr (Some 20858)"
    by code_simp
  have c: "(yearFromDay 20858, monthFromDay 20858, dateFromDay 20858) = (2027, 1, 9)"
    by code_simp
  have s': "specificDate 20760 ''13'' ''5'' = Inr (Some 20823)"
    by code_simp
  have c': "(yearFromDay 20823, monthFromDay 20823, dateFromDay 20823) = (2027, 0, 5)"
    by code_simp
  from specific_date_rule_total [OF h, of "''Renew passport 13/40''"] a b s
  have r: "map_sum id dueDate (parseNaturalLanguage 20760 ''Renew passport 13/40'') = Inr (Some 20858)
           \<and> timeClip 20858 = Some 20858"
    by auto
  from h y a b r c s' c' show ?thesis
    by blast
qed

section \<open>The title\<close>

text \<open>
  Claim C4 says that the title of a non-empty input is never empty, the first character
  of the trimmed input standing in when the removals leave nothing. There is no such
  fallback: the input "tomorrow" gets the empty title.
\<close>

theorem title_empty_counterexample:
  "trim ''tomorrow'' = ''tomorrow''
   \<and> parseNaturalLanguage 20760 ''tomorrow'' =
     Inr \<lparr>title = [], category = ''Other'', priority = ''Medium'',
          dueDate = Some 20761, dueTime = None, recurring = ''none''\<rparr>"
  by code_simp

text \<open>
  Claim C4, amended. For an input of ASCII characters, the title is empty exactly when
  the removal patterns leave nothing but white space. Otherwise it is non-empty and
  starts with the upper-cased first character, other than white space, of what the
  removals leave.
\<close>

theorem title_empty_iff_all_removed:
  assumes "list_all isAscii text"
  shows "(titleOf text = [] \<longleftrightarrow> dropWhile isSpace (removals text) = [])
   \<and> (titleOf text \<noteq> [] \<longrightarrow>
        hd (titleOf text) = upperChar (hd (dropWhile isSpace (removals text))))"
proof -
  consider (empty) "dropWhile isSpace (removals text) = []" "cleaned text = []"
    | (nonempty) c u v where "dropWhile isSpace (removals text) = c # u" "cleaned text = c # v"
    using cleaned_cases [of "text"] by blast
  then show ?thesis
  proof cases
    case empty
    then show ?thesis by (simp only: titleOf_def capitalize_def) simp
  next
    case nonempty
    then show ?thesis by (simp only: titleOf_def capitalize_def) simp
  qed
qed

theorem title_empty_iff_all_removed_witness:
  "list_all isAscii ''buy milk tomorrow''
   \<and> titleOf ''buy milk tomorrow'' \<noteq> []
   \<and> hd (titleOf ''buy milk tomorrow'')
        = upperChar (hd (dropWhile isSpace (removals ''buy milk tomorrow'')))
   \<and> titleOf ''buy milk tomorrow'' = ''Buy milk''
   \<and> removals ''buy milk tomorrow'' = ''buy milk ''"
proof -
  have a: "list_all isAscii ''buy milk tomorrow''"
    by (simp add: isAscii_def)
  have t: "titleOf ''buy milk tomorrow'' = ''Buy milk''"
    by code_simp
  have r: "removals ''buy milk tomorrow'' = ''buy milk ''"
    by code_simp
  have ne: "titleOf ''buy milk tomorrow'' \<noteq> []"
    by (simp only: t) simp
  from title_empty_iff_all_removed [OF a] ne
  have h: "hd (titleOf ''buy milk tomorrow'')
        = upperChar (hd (dropWhile isSpace (removals ''buy milk tomorrow'')))"
    by blast
  from a ne h t r show ?thesis
    by blast
qed

text \<open>
  Claim C1 says that the title never contains a keyword that the priority, date, time
  or recurrence stage matched on. The low-priority trigger words are in no removal
  pattern: "someday" sets the priority to Low and stays in the title.
\<close>

theorem title_keeps_matched_keyword_counterexample:
  "parseNaturalLanguage 20760 ''Call mom someday'' =
     Inr \<lparr>title = ''Call mom someday'', category = ''Work'', priority = ''Low'',
          dueDate = None, dueTime = None, recurring = ''none''\<rparr>
   \<and> includesStr (toLowerCase ''Call mom someday'') ''someday''
   \<and> includesStr ''Call mom someday'' ''someday''"
  by code_simp

text \<open>
  Claim C1, amended. For an input of ASCII characters, no word of the title, a word
  being a maximal run of word characters, is "daily", "weekly" or "monthly" in any
  letter case. Nothing is promised for the other fragments that the stages match on.
\<close>

theorem title_without_recurrence_words:
  assumes "list_all isAscii text"
  shows "\<forall>w\<in>set (wordsOf (titleOf text)). toLowerCase w \<notin> set recurrenceWords"
proof -
  have "map toLowerCase (wordsOf (titleOf text)) = map toLowerCase (wordsOf (cleaned text))"
    unfolding titleOf_def by (rule wordsOf_capitalize)
  also have "wordsOf (cleaned text) = wordsOf (removals text)"
    by (simp add: cleaned_def wordsOf_trim) (simp add: wordsOf_def wordsOf_collapse)
  finally have e: "map toLowerCase (wordsOf (titleOf text)) = map toLowerCase (wordsOf (removals text))" .
  have "\<forall>w\<in>set (wordsOf (removals text)). toLowerCase w \<notin> set recurrenceWords"
    unfolding wordsOf_def removals_def by (rule recurring_words_removed)
  then have "\<forall>k\<in>set (map toLowerCase (wordsOf (removals text))). k \<notin> set recurrenceWords"
    by simp
  then have "\<forall>k\<in>set (map toLowerCase (wordsOf (titleOf text))). k \<notin> set recurrenceWords"
    by (simp only: e)
  then show ?thesis
    by simp
qed

theorem title_without_recurrence_words_witness:
  "list_all isAscii ''Daily standup, weekly report''
   \<and> wordsOf (titleOf ''Daily standup, weekly report'') = [''Standup'', ''report'']
   \<and> toLowerCase ''Standup'' \<notin> set recurrenceWords
   \<and> toLowerCase ''report'' \<notin> set recurrenceWords"
proof -
  have a: "list_all isAscii ''Daily standup, weekly report''"
    by (simp add: isAscii_def)
  have w: "wordsOf (titleOf ''Daily standup, weekly report'') = [''Standup'', ''report'']"
    by code_simp
  from title_without_recurrence_words [OF a] w
  have "toLowerCase ''Standup'' \<notin> set recurrenceWords
        \<and> toLowerCase ''report'' \<notin> set recurrenceWords"
    by simp
  with a w show ?thesis
    by blast
qed

end
